theory Spec2Isabelle
  imports Complex_Main "HOL-Library.Char_ord" "HOL-Library.List_Lexorder"
begin

section \<open>The pdf2jpg converter: data model\<close>

text \<open>
  The development follows \<^verbatim>\<open>refcode/pdf2jpg/converter.py\<close> and the two dataclasses of
  \<^verbatim>\<open>refcode/pdf2jpg/config.py\<close>. Python integers are \<open>int\<close>, strings are \<open>string\<close>.
  A Python float is the rational number it denotes, and every operation on floats rounds
  its exact result to binary64 (see the section on crop geometry). What the module takes from the outside (pathlib, PyMuPDF, Pillow, the
  file system, the logger) is made explicit: a record of oracles for the libraries, and
  a state holding the existing paths and the sequence of observable events.
\<close>

subsection \<open>Paths\<close>

text \<open>
  A \<^verbatim>\<open>pathlib.Path\<close> in its POSIX flavour: the anchor (empty for a relative path,
  \<open>''/''\<close> or \<open>''//''\<close> for an absolute one) and the list of components.
\<close>

record path =
  anchor :: string
  parts :: "string list"

definition name :: "path \<Rightarrow> string" where
  "name p = (if parts p = [] then [] else last (parts p))"

definition rfind :: "char \<Rightarrow> string \<Rightarrow> int" where
  \<comment> \<open>\<^verbatim>\<open>str.rfind\<close> of a single character: the last index, or -1.\<close>
  "rfind c s =
     (if c \<in> set s
      then int (length s) - 1 - int (length (takeWhile (\<lambda>x. x \<noteq> c) (rev s)))
      else - 1)"

definition stem :: "path \<Rightarrow> string" where
  \<comment> \<open>\<^verbatim>\<open>PurePath.stem\<close> (CPython up to 3.13): the final component without its last
      suffix; a leading or a trailing dot starts no suffix\<close>
  "stem p =
     (let nm = name p; i = rfind (CHR ''.'') nm
      in if 0 < i \<and> i < int (length nm) - 1 then take (nat i) nm else nm)"

fun split_sep :: "string \<Rightarrow> string list" where
  \<comment> \<open>\<^verbatim>\<open>s.split('/')\<close>\<close>
  "split_sep [] = [[]]"
| "split_sep (c # cs) =
     (if c = CHR ''/'' then [] # split_sep cs
      else (case split_sep cs of [] \<Rightarrow> [[c]] | w # ws \<Rightarrow> (c # w) # ws))"

definition parse_parts :: "string \<Rightarrow> string list" where
  \<comment> \<open>the components of a path string: empty components and \<open>.\<close> are dropped\<close>
  "parse_parts s = filter (\<lambda>c. c \<noteq> [] \<and> c \<noteq> ''.'') (split_sep s)"

definition parse_anchor :: "string \<Rightarrow> string" where
  \<comment> \<open>the POSIX root: exactly two leading slashes are kept, any other number is one\<close>
  "parse_anchor s =
     (case s of
        c1 # c2 # c3 # _ \<Rightarrow>
          (if c1 = CHR ''/'' \<and> c2 = CHR ''/'' \<and> c3 \<noteq> CHR ''/'' then ''//''
           else if c1 = CHR ''/'' then ''/'' else [])
      | [c1, c2] \<Rightarrow>
          (if c1 = CHR ''/'' \<and> c2 = CHR ''/'' then ''//''
           else if c1 = CHR ''/'' then ''/'' else [])
      | [c1] \<Rightarrow> (if c1 = CHR ''/'' then ''/'' else [])
      | [] \<Rightarrow> [])"

definition truediv :: "path \<Rightarrow> string \<Rightarrow> path" where
  \<comment> \<open>\<^verbatim>\<open>folder / filename\<close>: an absolute right operand replaces the left one\<close>
  "truediv p s =
     (if parse_anchor s \<noteq> [] then \<lparr>anchor = parse_anchor s, parts = parse_parts s\<rparr>
      else \<lparr>anchor = anchor p, parts = parts p @ parse_parts s\<rparr>)"

subsection \<open>Formatting the page number\<close>

definition digit_char :: "nat \<Rightarrow> char" where
  "digit_char d = ''0123456789'' ! d"

fun str_nat :: "nat \<Rightarrow> string" where
  "str_nat n = (if n < 10 then [digit_char n] else str_nat (n div 10) @ [digit_char (n mod 10)])"

declare str_nat.simps [simp del]

definition zero_pad :: "nat \<Rightarrow> string \<Rightarrow> string" where
  "zero_pad k s = replicate (k - length s) (CHR ''0'') @ s"

definition format_03d :: "int \<Rightarrow> string" where
  \<comment> \<open>the format specification \<^verbatim>\<open>03d\<close>: the sign counts towards the width of 3\<close>
  "format_03d n =
     (if n < 0 then CHR ''-'' # zero_pad 2 (str_nat (nat (- n)))
      else zero_pad 3 (str_nat (nat n)))"

text \<open>Reading a decimal numeral back, the inverse used to state that formatting loses nothing.\<close>

definition digit_val :: "char \<Rightarrow> nat" where
  "digit_val c = of_char c - 48"

definition parse_dec :: "string \<Rightarrow> nat" where
  "parse_dec s = foldl (\<lambda>a c. 10 * a + digit_val c) 0 s"

subsection \<open>Output paths\<close>

definition get_output_path :: "path \<Rightarrow> int \<Rightarrow> path \<Rightarrow> string \<Rightarrow> path" where
  "get_output_path pdf page_num out_folder fmt =
     (let stem = stem pdf;
          filename = stem @ ''_'' @ format_03d (page_num + 1) @ ''.'' @ fmt
      in truediv out_folder filename)"

subsection \<open>Settings\<close>

datatype py_error = ValueError string | OSError string

record crop_settings =
  enabled :: bool
  horizontal_start :: rat
  horizontal_end :: rat
  vertical_start :: rat
  vertical_end :: rat




record settings =
  input_folder :: path
  output_folder :: path
  dpi :: int
  format :: string
  jpg_quality :: int
  colorspace :: string
  overwrite :: bool
  skip_if_exists :: bool
  max_pages_per_pdf :: int
  fail_fast :: bool
  log_file :: "path option"
  crop :: crop_settings

subsection \<open>Results\<close>

datatype status = Success | Partial | Failed | Skipped

record conversion_result =
  pdf_path :: path
  status :: status
  pages_total :: int
  pages_converted :: int
  pages_failed :: int
  error_message :: "string option"
  output_files :: "path list"

definition new_result :: "path \<Rightarrow> conversion_result" where
  \<comment> \<open>\<^verbatim>\<open>ConversionResult(pdf_path=pdf_path, status="success")\<close>\<close>
  "new_result p =
     \<lparr>pdf_path = p, status = Success, pages_total = 0, pages_converted = 0,
      pages_failed = 0, error_message = None, output_files = []\<rparr>"

record batch_result =
  total_files :: int
  success_count :: int
  partial_count :: int
  failed_count :: int
  skipped_count :: int
  results :: "conversion_result list"

definition new_batch :: batch_result where
  \<comment> \<open>\<^verbatim>\<open>BatchResult()\<close>\<close>
  "new_batch =
     \<lparr>total_files = 0, success_count = 0, partial_count = 0, failed_count = 0,
      skipped_count = 0, results = []\<rparr>"

definition add :: "batch_result \<Rightarrow> conversion_result \<Rightarrow> batch_result" where
  \<comment> \<open>\<^verbatim>\<open>BatchResult.add\<close>\<close>
  "add b r =
     (let b1 = b\<lparr>results := results b @ [r]\<rparr>;
          b2 = b1\<lparr>total_files := total_files b1 + 1\<rparr>
      in case status r of
           Success \<Rightarrow> b2\<lparr>success_count := success_count b2 + 1\<rparr>
         | Partial \<Rightarrow> b2\<lparr>partial_count := partial_count b2 + 1\<rparr>
         | Failed \<Rightarrow> b2\<lparr>failed_count := failed_count b2 + 1\<rparr>
         | Skipped \<Rightarrow> b2\<lparr>skipped_count := skipped_count b2 + 1\<rparr>)"

subsection \<open>The outside world\<close>

text \<open>
  PyMuPDF and Pillow are oracles. Opening a file raises \<^verbatim>\<open>FileDataError\<close>, raises
  something else, or gives a document; a document knows whether it is encrypted, its
  number of pages, and for each page either the size of the rendered pixmap or that
  loading or rendering raised. Saving an image succeeds or raises.

  The operating system is an oracle as well, where \<open>convert_batch\<close> depends on it:
  \<open>stat_error\<close> is the error with which the system call behind \<^verbatim>\<open>Path.exists\<close> fails
  for a path in a way that \<^verbatim>\<open>exists\<close> does not turn into \<^verbatim>\<open>False\<close> (a name that is too
  long, under CPython before 3.12), and \<open>mkdir_error\<close> is the error with which creating
  a directory fails (the path is a regular file, or permission is denied).
\<close>

datatype colorspace_t = CsGray | CsRgb

record pixmap =
  width :: int
  height :: int

record document =
  is_encrypted :: bool
  page_count :: nat
  get_pixmap :: "int \<Rightarrow> int \<Rightarrow> colorspace_t \<Rightarrow> pixmap option"

datatype open_result = FileDataError string | OtherError string | Opened document

record world =
  pymupdf_open :: "path \<Rightarrow> open_result"
  pix_save :: "pixmap \<Rightarrow> path \<Rightarrow> int option \<Rightarrow> bool"
  pil_crop_save :: "pixmap \<Rightarrow> int \<times> int \<times> int \<times> int \<Rightarrow> path \<Rightarrow> string \<Rightarrow> int option \<Rightarrow> bool"
  listdir :: "path \<Rightarrow> string list"
  stat_error :: "path \<Rightarrow> py_error option"
  mkdir_error :: "path \<Rightarrow> py_error option"

text \<open>
  The observable events: the lines the module logs, and its calls that reach the PDF
  library or change the file system. They are recorded in the order in which they happen.
\<close>

datatype event =
    Log_skipping path
  | Log_corrupt path
  | Log_open_failed path
  | Log_encrypted path
  | Log_skipping_existing path
  | Log_cropped int int int int
  | Log_converted path
  | Log_page_failed int path
  | Log_doc_success path
  | Log_doc_partial path
  | Log_doc_failed path
  | Log_input_not_found path
  | Log_no_pdf_found path
  | Log_found nat
  | Log_fail_fast
  | Call_open path
  | Call_close path
  | Call_render path int
  | Call_write path
  | Call_mkdir path

record sys =
  files :: "path set"
  trace :: "event list"

definition emit :: "event \<Rightarrow> sys \<Rightarrow> sys" where
  "emit e st = st\<lparr>trace := trace st @ [e]\<rparr>"

definition exists :: "sys \<Rightarrow> path \<Rightarrow> bool" where
  \<comment> \<open>\<^verbatim>\<open>Path.exists\<close>\<close>
  "exists st p = (p \<in> files st)"

definition write_file :: "path \<Rightarrow> sys \<Rightarrow> sys" where
  "write_file p st = emit (Call_write p) (st\<lparr>files := insert p (files st)\<rparr>)"

definition ancestors :: "path \<Rightarrow> path list" where
  "ancestors p = map (\<lambda>k. p\<lparr>parts := take k (parts p)\<rparr>) [1..<Suc (length (parts p))]"

definition mkdir :: "world \<Rightarrow> path \<Rightarrow> sys \<Rightarrow> py_error + sys" where
  \<comment> \<open>\<^verbatim>\<open>mkdir(parents=True, exist_ok=True)\<close>: raises, or creates the directory and its
      missing parents\<close>
  "mkdir w p st =
     (case mkdir_error w p of
        Some e \<Rightarrow> Inl e
      | None \<Rightarrow> Inr (emit (Call_mkdir p) (st\<lparr>files := files st \<union> set (ancestors p)\<rparr>)))"

definition path_exists :: "world \<Rightarrow> sys \<Rightarrow> path \<Rightarrow> py_error + bool" where
  \<comment> \<open>\<^verbatim>\<open>Path.exists\<close> with the error it lets through\<close>
  "path_exists w st p =
     (case stat_error w p of Some e \<Rightarrow> Inl e | None \<Rightarrow> Inr (exists st p))"

section \<open>The operations of the converter\<close>

subsection \<open>Skip policy\<close>

definition should_skip_pdf :: "path \<Rightarrow> settings \<Rightarrow> sys \<Rightarrow> bool \<times> sys" where
  "should_skip_pdf pdf s st =
     (if \<not> skip_if_exists s \<or> overwrite s then (False, st)
      else
        let first_page_path = get_output_path pdf 0 (output_folder s) (format s)
        in if exists st first_page_path then (True, emit (Log_skipping pdf) st)
           else (False, st))"

subsection \<open>Crop geometry\<close>

text \<open>
  The bounds are computed in floating point. A finite binary64 number is a multiple of
  \<open>2 ^ -1074\<close> with at most 53 significant bits; \<open>round_binary64\<close> rounds a rational
  number to the nearest such number, ties to the even one. The exponent is not bounded
  above: a result of magnitude \<open>2 ^ 1024\<close> or more, which Python turns into an infinity,
  does not arise from a raster dimension and a percentage.
\<close>

function bitlen :: "int \<Rightarrow> nat" where
  \<comment> \<open>the number of bits of a positive integer\<close>
  "bitlen n = (if n \<le> 0 then 0 else Suc (bitlen (n div 2)))"
  by pat_completeness auto
termination
  by (relation "measure nat") auto

declare bitlen.simps [simp del]

definition round_half_even :: "rat \<Rightarrow> int" where
  "round_half_even x =
     (let f = \<lfloor>x\<rfloor>; r = x - of_int f
      in if r < 1 / 2 then f else if 1 / 2 < r then f + 1 else if even f then f else f + 1)"

definition round_magnitude :: "rat \<Rightarrow> rat" where
  \<comment> \<open>in units of \<open>2 ^ -1074\<close>: keep 53 bits of the integer part, or all of it if it has
      fewer (a subnormal number)\<close>
  "round_magnitude x =
     (let scaled = x * 2 ^ 1074;
          shift = bitlen \<lfloor>scaled\<rfloor> - 53;
          quantum = 2 ^ shift
      in of_int (quantum * round_half_even (scaled / of_int quantum)) / 2 ^ 1074)"

definition round_binary64 :: "rat \<Rightarrow> rat" where
  "round_binary64 x = (if x < 0 then - round_magnitude (- x) else round_magnitude x)"

definition float_of_int :: "int \<Rightarrow> rat" where
  \<comment> \<open>the conversion of an \<^verbatim>\<open>int\<close> operand to \<^verbatim>\<open>float\<close>\<close>
  "float_of_int n = round_binary64 (of_int n)"

definition float_mul :: "rat \<Rightarrow> rat \<Rightarrow> rat" where
  "float_mul x y = round_binary64 (x * y)"

definition float_div :: "rat \<Rightarrow> rat \<Rightarrow> rat" where
  "float_div x y = round_binary64 (x / y)"

definition py_int :: "rat \<Rightarrow> int" where
  \<comment> \<open>\<^verbatim>\<open>int(x)\<close> of a float: truncation towards zero\<close>
  "py_int x = (if 0 \<le> x then \<lfloor>x\<rfloor> else \<lceil>x\<rceil>)"

definition crop_bounds :: "pixmap \<Rightarrow> crop_settings \<Rightarrow> int \<times> int \<times> int \<times> int" where
  \<comment> \<open>lines 170 to 175 of \<^verbatim>\<open>convert_pdf\<close>; the result is the box \<open>(x0, y0, x1, y1)\<close>\<close>
  "crop_bounds pix c =
     (let width = width pix;
          height = height pix;
          x0 = py_int (float_div (float_mul (float_of_int width) (horizontal_start c)) 100);
          x1 = py_int (float_div (float_mul (float_of_int width) (horizontal_end c)) 100);
          y0 = py_int (float_div (float_mul (float_of_int height) (vertical_start c)) 100);
          y1 = py_int (float_div (float_mul (float_of_int height) (vertical_end c)) 100)
      in (x0, y0, x1, y1))"

subsection \<open>One document\<close>

definition page_converted :: "path \<Rightarrow> conversion_result \<Rightarrow> conversion_result" where
  \<comment> \<open>\<^verbatim>\<open>result.pages_converted += 1; result.output_files.append(output_path)\<close>\<close>
  "page_converted output_path result =
     result\<lparr>pages_converted := pages_converted result + 1,
            output_files := output_files result @ [output_path]\<rparr>"

definition page_failed :: "path \<Rightarrow> int \<Rightarrow> conversion_result \<times> sys \<Rightarrow> conversion_result \<times> sys" where
  \<comment> \<open>the handler \<^verbatim>\<open>except Exception\<close> of the page loop\<close>
  "page_failed pdf page_num acc =
     (case acc of (result, st) \<Rightarrow>
        (result\<lparr>pages_failed := pages_failed result + 1\<rparr>,
         emit (Log_page_failed (page_num + 1) pdf) st))"

definition page_body ::
  "world \<Rightarrow> settings \<Rightarrow> document \<Rightarrow> colorspace_t \<Rightarrow> path \<Rightarrow> conversion_result \<times> sys \<Rightarrow> int
     \<Rightarrow> conversion_result \<times> sys" where
  \<comment> \<open>the body of the loop over \<^verbatim>\<open>page_num\<close>, lines 151 to 206\<close>
  "page_body w s doc cs pdf acc page_num =
     (case acc of (result, st) \<Rightarrow>
        let output_path = get_output_path pdf page_num (output_folder s) (format s)
        in if exists st output_path \<and> \<not> overwrite s
           then (page_converted output_path result, emit (Log_skipping_existing output_path) st)
           else
             let st1 = emit (Call_render pdf page_num) st
             in case get_pixmap doc page_num (dpi s) cs of
                  None \<Rightarrow> page_failed pdf page_num (result, st1)
                | Some pix \<Rightarrow>
                    if enabled (crop s)
                    then
                      (case crop_bounds pix (crop s) of (x0, y0, x1, y1) \<Rightarrow>
                         if (if format s = ''png''
                             then pil_crop_save w pix (x0, y0, x1, y1) output_path ''PNG'' None
                             else pil_crop_save w pix (x0, y0, x1, y1) output_path ''JPEG''
                                    (Some (jpg_quality s)))
                         then (page_converted output_path result,
                               emit (Log_converted output_path)
                                 (emit (Log_cropped x0 y0 x1 y1) (write_file output_path st1)))
                         else page_failed pdf page_num (result, st1))
                    else
                      if (if format s = ''png'' then pix_save w pix output_path None
                          else pix_save w pix output_path (Some (jpg_quality s)))
                      then (page_converted output_path result,
                            emit (Log_converted output_path) (write_file output_path st1))
                      else page_failed pdf page_num (result, st1))"

definition py_range :: "int \<Rightarrow> int list" where
  \<comment> \<open>\<^verbatim>\<open>range(n)\<close>\<close>
  "py_range n = map int [0..<nat n]"

definition pages_to_process :: "settings \<Rightarrow> document \<Rightarrow> int" where
  \<comment> \<open>lines 147 and 148\<close>
  "pages_to_process s doc =
     (let max_pages = (if max_pages_per_pdf s > 0 then max_pages_per_pdf s
                       else int (page_count doc))
      in min (int (page_count doc)) max_pages)"

definition page_loop ::
  "world \<Rightarrow> settings \<Rightarrow> document \<Rightarrow> path \<Rightarrow> conversion_result \<times> sys \<Rightarrow> conversion_result \<times> sys" where
  \<comment> \<open>lines 138 to 208: the page count, the colorspace, the loop, closing the document\<close>
  "page_loop w s doc pdf acc =
     (case acc of (result, st) \<Rightarrow>
        let result1 = result\<lparr>pages_total := int (page_count doc)\<rparr>;
            cs = (if colorspace s = ''gray'' then CsGray else CsRgb)
        in case foldl (page_body w s doc cs pdf) (result1, st)
                  (py_range (pages_to_process s doc)) of
             (result2, st2) \<Rightarrow> (result2, emit (Call_close pdf) st2))"

definition final_status :: "path \<Rightarrow> conversion_result \<times> sys \<Rightarrow> conversion_result \<times> sys" where
  \<comment> \<open>lines 210 to 227: the final status\<close>
  "final_status pdf acc =
     (case acc of (result, st) \<Rightarrow>
        if pages_failed result = 0
        then (result\<lparr>status := Success\<rparr>, emit (Log_doc_success pdf) st)
        else if pages_converted result > 0
        then (result\<lparr>status := Partial\<rparr>, emit (Log_doc_partial pdf) st)
        else (result\<lparr>status := Failed, error_message := Some ''All pages failed to render''\<rparr>,
              emit (Log_doc_failed pdf) st))"

definition convert_pdf :: "world \<Rightarrow> path \<Rightarrow> settings \<Rightarrow> sys \<Rightarrow> conversion_result \<times> sys" where
  "convert_pdf w pdf s st =
     (let result = new_result pdf
      in case should_skip_pdf pdf s st of
           (True, st1) \<Rightarrow> (result\<lparr>status := Skipped\<rparr>, st1)
         | (False, st1) \<Rightarrow>
             let st2 = emit (Call_open pdf) st1
             in case pymupdf_open w pdf of
                  FileDataError e \<Rightarrow>
                    (result\<lparr>status := Failed, error_message := Some (''Corrupt PDF: '' @ e)\<rparr>,
                     emit (Log_corrupt pdf) st2)
                | OtherError e \<Rightarrow>
                    (result\<lparr>status := Failed, error_message := Some e\<rparr>,
                     emit (Log_open_failed pdf) st2)
                | Opened doc \<Rightarrow>
                    if is_encrypted doc
                    then (result\<lparr>status := Failed, error_message := Some ''Password protected''\<rparr>,
                          emit (Call_close pdf) (emit (Log_encrypted pdf) st2))
                    else final_status pdf (page_loop w s doc pdf (result, st2)))"

subsection \<open>The batch\<close>

definition is_pdf_name :: "string \<Rightarrow> bool" where
  \<comment> \<open>the pattern \<^verbatim>\<open>*.pdf\<close>\<close>
  "is_pdf_name n = (4 \<le> length n \<and> drop (length n - 4) n = ''.pdf'')"

definition glob_pdf :: "world \<Rightarrow> path \<Rightarrow> path list" where
  \<comment> \<open>\<^verbatim>\<open>input_folder.glob("*.pdf")\<close>: the matching entries of the directory\<close>
  "glob_pdf w folder = map (truediv folder) (filter is_pdf_name (listdir w folder))"

definition path_key :: "path \<Rightarrow> string list" where
  \<comment> \<open>paths compare by their anchor and components\<close>
  "path_key p = (if anchor p = [] then parts p else anchor p # parts p)"

definition sorted_paths :: "path list \<Rightarrow> path list" where
  \<comment> \<open>\<^verbatim>\<open>sorted\<close> on paths\<close>
  "sorted_paths ps = sort_key path_key ps"

fun batch_loop ::
  "world \<Rightarrow> settings \<Rightarrow> path list \<Rightarrow> batch_result \<times> sys \<Rightarrow> batch_result \<times> sys" where
  \<comment> \<open>the loop over \<^verbatim>\<open>pdf_files\<close> with its \<^verbatim>\<open>break\<close>, lines 258 to 265\<close>
  "batch_loop w s [] (batch, st) = (batch, st)"
| "batch_loop w s (pdf # rest) (batch, st) =
     (case convert_pdf w pdf s st of (result, st1) \<Rightarrow>
        let batch1 = add batch result
        in if fail_fast s \<and> status result = Failed then (batch1, emit Log_fail_fast st1)
           else batch_loop w s rest (batch1, st1))"

definition convert_batch :: "world \<Rightarrow> settings \<Rightarrow> sys \<Rightarrow> py_error + batch_result \<times> sys" where
  \<comment> \<open>nothing in \<^verbatim>\<open>convert_batch\<close> catches an exception: an error of the check of the input
      folder or of \<^verbatim>\<open>mkdir\<close> leaves the function\<close>
  "convert_batch w s st =
     (let batch = new_batch
      in case path_exists w st (input_folder s) of
           Inl e \<Rightarrow> Inl e
         | Inr found \<Rightarrow>
             if \<not> found
             then Inr (batch, emit (Log_input_not_found (input_folder s)) st)
             else
               (case mkdir w (output_folder s) st of
                  Inl e \<Rightarrow> Inl e
                | Inr st1 \<Rightarrow>
                    let pdf_files = sorted_paths (glob_pdf w (input_folder s))
                    in if pdf_files = []
                       then Inr (batch, emit (Log_no_pdf_found (input_folder s)) st1)
                       else Inr (batch_loop w s pdf_files
                                   (batch, emit (Log_found (length pdf_files)) st1))))"

definition exit_code :: "batch_result \<Rightarrow> int" where
  \<comment> \<open>the value \<^verbatim>\<open>main\<close> returns after the batch, lines 69 to 71 of \<^verbatim>\<open>main.py\<close>\<close>
  "exit_code batch = (if failed_count batch > 0 then 1 else 0)"

section \<open>Vocabulary of the properties\<close>

text \<open>
  The predicates and projections in which the properties below are stated. They are not
  part of the program.
\<close>

definition batch_invariant :: "batch_result \<Rightarrow> bool" where
  "batch_invariant b =
     (total_files b = success_count b + partial_count b + failed_count b + skipped_count b
      \<and> total_files b = int (length (results b)))"

subsection \<open>Sample inputs\<close>

definition default_crop :: crop_settings where
  \<comment> \<open>\<^verbatim>\<open>CropSettings()\<close>\<close>
  "default_crop =
     \<lparr>enabled = False, horizontal_start = 0, horizontal_end = 100,
      vertical_start = 0, vertical_end = 100\<rparr>"

definition default_settings :: settings where
  \<comment> \<open>\<^verbatim>\<open>Settings()\<close>\<close>
  "default_settings =
     \<lparr>input_folder = \<lparr>anchor = [], parts = [''input'']\<rparr>,
      output_folder = \<lparr>anchor = [], parts = [''output'']\<rparr>,
      dpi = 300, format = ''jpg'', jpg_quality = 90, colorspace = ''rgb'',
      overwrite = False, skip_if_exists = True, max_pages_per_pdf = 0,
      fail_fast = False, log_file = None, crop = default_crop\<rparr>"

definition report_pdf :: path where
  "report_pdf = \<lparr>anchor = [], parts = [''input'', ''report.pdf'']\<rparr>"

definition report_page :: "nat \<Rightarrow> path" where
  \<comment> \<open>the image of page \<open>n\<close> of \<^verbatim>\<open>report.pdf\<close>, for \<open>n\<close> from 1 to 9\<close>
  "report_page n = \<lparr>anchor = [], parts = [''output'', ''report_00'' @ [digit_char n] @ ''.jpg'']\<rparr>"

definition sample_world :: "(path \<Rightarrow> open_result) \<Rightarrow> string list \<Rightarrow> world" where
  \<comment> \<open>a world in which every image can be saved and no system call fails; the input
      directory has the given entries\<close>
  "sample_world opn entries =
     \<lparr>pymupdf_open = opn, pix_save = (\<lambda>pix p q. True),
      pil_crop_save = (\<lambda>pix box p kind q. True),
      listdir = (\<lambda>d. if d = \<lparr>anchor = [], parts = [''input'']\<rparr> then entries else []),
      stat_error = (\<lambda>p. None), mkdir_error = (\<lambda>p. None)\<rparr>"

subsection \<open>Events of the page loop\<close>

abbreviation page_path :: "settings \<Rightarrow> path \<Rightarrow> int \<Rightarrow> path" where
  "page_path s pdf i \<equiv> get_output_path pdf i (output_folder s) (format s)"

definition new_events :: "sys \<Rightarrow> sys \<Rightarrow> event list" where
  \<comment> \<open>the events recorded between an earlier and a later state\<close>
  "new_events st st' = drop (length (trace st)) (trace st')"

fun page_of_event :: "settings \<Rightarrow> event \<Rightarrow> path option" where
  \<comment> \<open>the output path of the page whose processing an event ends, if it ends one\<close>
  "page_of_event s (Log_skipping_existing p) = Some p"
| "page_of_event s (Log_converted p) = Some p"
| "page_of_event s (Log_page_failed k pdf) = Some (page_path s pdf (k - 1))"
| "page_of_event s _ = None"

fun is_page_failure :: "event \<Rightarrow> bool" where
  "is_page_failure (Log_page_failed k pdf) = True"
| "is_page_failure _ = False"

subsection \<open>Sample documents\<close>

definition sample_doc :: "nat \<Rightarrow> int list \<Rightarrow> document" where
  \<comment> \<open>an unencrypted document of \<open>n\<close> pages; rendering raises on the listed page indices\<close>
  "sample_doc n bad =
     \<lparr>is_encrypted = False, page_count = n,
      get_pixmap = (\<lambda>i d cs. if i \<in> set bad then None else Some \<lparr>width = 400, height = 300\<rparr>)\<rparr>"

definition empty_sys :: sys where
  "empty_sys = \<lparr>files = {}, trace = []\<rparr>"

definition colorspace_of :: "settings \<Rightarrow> colorspace_t" where
  \<comment> \<open>the colorspace \<open>page_loop\<close> chooses\<close>
  "colorspace_of s = (if colorspace s = ''gray'' then CsGray else CsRgb)"

definition page_raises ::
  "world \<Rightarrow> settings \<Rightarrow> document \<Rightarrow> colorspace_t \<Rightarrow> path \<Rightarrow> int \<Rightarrow> bool" where
  \<comment> \<open>rendering, cropping or encoding page \<open>i\<close> raises: loading or rendering the page
      raises, or saving the image does\<close>
  "page_raises w s doc cs pdf i =
     (case get_pixmap doc i (dpi s) cs of
        None \<Rightarrow> True
      | Some pix \<Rightarrow>
          if enabled (crop s)
          then \<not> pil_crop_save w pix (crop_bounds pix (crop s)) (page_path s pdf i)
                   (if format s = ''png'' then ''PNG'' else ''JPEG'')
                   (if format s = ''png'' then None else Some (jpg_quality s))
          else \<not> pix_save w pix (page_path s pdf i)
                   (if format s = ''png'' then None else Some (jpg_quality s)))"

definition resume_settings :: settings where
  \<comment> \<open>the default settings without the skip of whole documents\<close>
  "resume_settings = default_settings\<lparr>skip_if_exists := False\<rparr>"

definition resume_sys :: sys where
  \<comment> \<open>an earlier run has left the first two pages of \<^verbatim>\<open>report.pdf\<close>\<close>
  "resume_sys = \<lparr>files = {report_page 1, report_page 2}, trace = []\<rparr>"

subsection \<open>Results of the batch loop\<close>

definition new_results :: "batch_result \<Rightarrow> batch_result \<Rightarrow> conversion_result list" where
  \<comment> \<open>the results appended between an earlier and a later batch result\<close>
  "new_results b0 b = drop (length (results b0)) (results b)"

definition input_pdf :: "string \<Rightarrow> path" where
  "input_pdf n = \<lparr>anchor = [], parts = [''input'', n]\<rparr>"

definition abc_world :: world where
  \<comment> \<open>three documents in the input directory; \<^verbatim>\<open>b.pdf\<close> cannot be opened, the others have
      one page\<close>
  "abc_world =
     sample_world (\<lambda>p. if p = input_pdf ''b.pdf'' then OtherError ''cannot open''
                        else Opened (sample_doc 1 []))
       [''c.pdf'', ''notes.txt'', ''a.pdf'', ''b.pdf'']"

definition fail_fast_settings :: settings where
  "fail_fast_settings = default_settings\<lparr>fail_fast := True\<rparr>"

definition input_sys :: sys where
  \<comment> \<open>only the input directory exists\<close>
  "input_sys = \<lparr>files = {\<lparr>anchor = [], parts = [''input'']\<rparr>}, trace = []\<rparr>"

subsection \<open>Crop bounds\<close>


definition blocked_world :: world where
  \<comment> \<open>an input directory without documents; the output folder is a regular file, so that
      creating it raises \<^verbatim>\<open>FileExistsError\<close>\<close>
  "blocked_world =
     (sample_world (\<lambda>p. OtherError ''no such file'') [''notes.txt''])
       \<lparr>mkdir_error := (\<lambda>p. if p = \<lparr>anchor = [], parts = [''output'']\<rparr>
                              then Some (OSError ''FileExistsError'') else None)\<rparr>"

definition blocked_sys :: sys where
  "blocked_sys =
     \<lparr>files = {\<lparr>anchor = [], parts = [''input'']\<rparr>, \<lparr>anchor = [], parts = [''output'']\<rparr>},
      trace = []\<rparr>"

section \<open>Properties\<close>

subsection \<open>Page numbers and output paths\<close>

lemma digit_lt10_cases:
  "d < 10 \<Longrightarrow> d = 0 \<or> d = 1 \<or> d = 2 \<or> d = 3 \<or> d = 4 \<or> d = 5 \<or> d = 6 \<or> d = 7 \<or> d = 8 \<or> d = (9::nat)"
  by arith

lemma digit_val_digit_char: "d < 10 \<Longrightarrow> digit_val (digit_char d) = d"
  using digit_lt10_cases [of d] by (auto simp: digit_val_def digit_char_def)

lemma digit_char_not_special:
  "d < 10 \<Longrightarrow> digit_char d \<noteq> CHR ''/'' \<and> digit_char d \<noteq> CHR ''-'' \<and> digit_char d \<in> set ''0123456789''"
  using digit_lt10_cases [of d] by (auto simp: digit_char_def)

lemma parse_dec_snoc: "parse_dec (s @ [c]) = 10 * parse_dec s + digit_val c"
  by (simp add: parse_dec_def)

lemma parse_dec_str_nat: "parse_dec (str_nat n) = n"
proof (induction n rule: str_nat.induct)
  case (1 n)
  show ?case
  proof (cases "n < 10")
    case True
    then show ?thesis
      by (simp add: str_nat.simps [of n] parse_dec_def digit_val_digit_char)
  next
    case False
    with 1 show ?thesis
      by (simp add: str_nat.simps [of n] parse_dec_snoc digit_val_digit_char)
  qed
qed

lemma str_nat_digits: "set (str_nat n) \<subseteq> set ''0123456789''"
proof (induction n rule: str_nat.induct)
  case (1 n)
  show ?case
  proof (cases "n < 10")
    case True
    then show ?thesis
      using digit_char_not_special [of n] by (simp add: str_nat.simps [of n])
  next
    case False
    with 1 show ?thesis
      using digit_char_not_special [of "n mod 10"] by (simp add: str_nat.simps [of n])
  qed
qed

lemma str_nat_nonempty: "str_nat n \<noteq> []"
  by (simp add: str_nat.simps [of n])

lemma parse_dec_zeros: "parse_dec (replicate k (CHR ''0'') @ s) = parse_dec s"
proof -
  have "foldl (\<lambda>a c. 10 * a + digit_val c) 0 (replicate k (CHR ''0'')) = 0"
    by (induction k) (simp_all add: digit_val_def)
  then show ?thesis by (simp add: parse_dec_def)
qed

lemma parse_dec_zero_pad: "parse_dec (zero_pad k (str_nat n)) = n"
  by (simp add: zero_pad_def parse_dec_zeros parse_dec_str_nat)

lemma zero_pad_digits: "set (zero_pad k (str_nat n)) \<subseteq> set ''0123456789''"
  using str_nat_digits [of n] by (auto simp: zero_pad_def)

lemma zero_pad_length: "k \<le> length (zero_pad k s)"
  by (simp add: zero_pad_def)

lemma format_03d_nonneg: "0 \<le> n \<Longrightarrow> format_03d n = zero_pad 3 (str_nat (nat n))"
  by (simp add: format_03d_def)

lemma format_03d_digits: "0 \<le> n \<Longrightarrow> set (format_03d n) \<subseteq> set ''0123456789''"
  using zero_pad_digits [of 3 "nat n"] by (simp add: format_03d_nonneg)

lemma format_03d_no_slash: "CHR ''/'' \<notin> set (format_03d n)"
proof (cases "0 \<le> n")
  case True
  then show ?thesis using format_03d_digits [of n] by auto
next
  case False
  then show ?thesis using zero_pad_digits [of 2 "nat (- n)"] by (auto simp: format_03d_def)
qed

lemma format_03d_inj: "format_03d m = format_03d n \<Longrightarrow> m = n"
proof -
  assume eq: "format_03d m = format_03d n"
  have hd_nonneg: "hd (format_03d k) \<noteq> CHR ''-''" if "0 \<le> k" for k
  proof -
    have "format_03d k \<noteq> []" using that str_nat_nonempty by (simp add: format_03d_nonneg zero_pad_def)
    then have "hd (format_03d k) \<in> set (format_03d k)" by simp
    with format_03d_digits [OF that] show ?thesis by auto
  qed
  have hd_neg: "hd (format_03d k) = CHR ''-''" if "k < 0" for k
    using that by (simp add: format_03d_def)
  consider "0 \<le> m" "0 \<le> n" | "m < 0" "n < 0" | "0 \<le> m" "n < 0" | "m < 0" "0 \<le> n"
    by linarith
  then show "m = n"
  proof cases
    case 1
    then have "parse_dec (format_03d m) = nat m" "parse_dec (format_03d n) = nat n"
      by (simp_all add: format_03d_nonneg parse_dec_zero_pad)
    with eq 1 show ?thesis by simp
  next
    case 2
    with eq have "zero_pad 2 (str_nat (nat (- m))) = zero_pad 2 (str_nat (nat (- n)))"
      by (simp add: format_03d_def)
    then have "parse_dec (zero_pad 2 (str_nat (nat (- m)))) = parse_dec (zero_pad 2 (str_nat (nat (- n))))"
      by simp
    then have "nat (- m) = nat (- n)" by (simp only: parse_dec_zero_pad)
    with 2 show ?thesis by simp
  next
    case 3
    with hd_nonneg [of m] hd_neg [of n] eq show ?thesis by simp
  next
    case 4
    with hd_nonneg [of n] hd_neg [of m] eq show ?thesis by simp
  qed
qed


lemma split_sep_nonempty: "split_sep s \<noteq> []"
  by (induction s) (auto split: list.splits)

lemma split_sep_slash: "split_sep (a @ CHR ''/'' # b) = split_sep a @ split_sep b"
  using split_sep_nonempty
  by (induction a) (auto split: list.splits)

lemma split_sep_no_slash:
  "CHR ''/'' \<notin> set a \<Longrightarrow> split_sep (a @ b) = (a @ hd (split_sep b)) # tl (split_sep b)"
  using split_sep_nonempty [of b]
  by (induction a) (auto split: list.splits)

lemma last_segment:
  "\<exists>pre t. CHR ''/'' \<notin> set t \<and> (\<forall>b. split_sep (s @ b) = pre @ split_sep (t @ b))"
proof (induction s)
  case Nil
  show ?case by (rule exI [of _ "[]"], rule exI [of _ "[]"]) simp
next
  case (Cons c s)
  then obtain pre t where t: "CHR ''/'' \<notin> set t" and eq: "\<And>b. split_sep (s @ b) = pre @ split_sep (t @ b)"
    by blast
  show ?case
  proof (cases "c = CHR ''/''")
    case True
    have "\<forall>b. split_sep ((c # s) @ b) = ([] # pre) @ split_sep (t @ b)"
      using True eq by simp
    with t show ?thesis by blast
  next
    case False
    show ?thesis
    proof (cases pre)
      case Nil
      have "\<forall>b. split_sep ((c # s) @ b) = [] @ split_sep ((c # t) @ b)"
        using False eq Nil by simp
      moreover have "CHR ''/'' \<notin> set (c # t)" using False t by simp
      ultimately show ?thesis by blast
    next
      case (Cons p ps)
      have "\<forall>b. split_sep ((c # s) @ b) = ((c # p) # ps) @ split_sep (t @ b)"
        using False eq Cons by simp
      with t show ?thesis by blast
    qed
  qed
qed

lemma parse_anchor_stem:
  "parse_anchor (s @ CHR ''_'' # x) = parse_anchor (s @ ''_'')"
proof (cases s)
  case Nil
  then show ?thesis by (cases x; cases "tl x") (auto simp: parse_anchor_def)
next
  case (Cons c1 s1)
  show ?thesis
  proof (cases s1)
    case Nil
    with Cons show ?thesis by (cases x) (auto simp: parse_anchor_def)
  next
    case (Cons c2 s2)
    with \<open>s = c1 # s1\<close> show ?thesis by (cases s2) (auto simp: parse_anchor_def)
  qed
qed

lemma parse_parts_filename:
  "\<exists>pre t h rest. \<forall>num. CHR ''/'' \<notin> set num \<longrightarrow>
     parse_parts (s @ ''_'' @ num @ ''.'' @ fmt) = pre @ (t @ ''_'' @ num @ h) # rest"
proof -
  obtain pre t where t: "CHR ''/'' \<notin> set t"
    and eq: "\<And>b. split_sep (s @ b) = pre @ split_sep (t @ b)"
    using last_segment [of s] by blast
  let ?P = "\<lambda>c. c \<noteq> [] \<and> c \<noteq> ''.''"
  let ?h = "hd (split_sep (''.'' @ fmt))"
  let ?rest = "tl (split_sep (''.'' @ fmt))"
  have "parse_parts (s @ ''_'' @ n @ ''.'' @ fmt) = filter ?P pre @ (t @ ''_'' @ n @ ?h) # filter ?P ?rest"
    if n: "CHR ''/'' \<notin> set n" for n
  proof -
    have "CHR ''/'' \<notin> set (t @ ''_'' @ n)" using t n by simp
    then have "split_sep ((t @ ''_'' @ n) @ (''.'' @ fmt)) = ((t @ ''_'' @ n) @ ?h) # ?rest"
      by (rule split_sep_no_slash)
    then have "split_sep (s @ (''_'' @ n @ ''.'' @ fmt)) = pre @ (t @ ''_'' @ n @ ?h) # ?rest"
      using eq [of "''_'' @ n @ ''.'' @ fmt"] by simp
    moreover have "?P (t @ ''_'' @ n @ ?h)"
    proof -
      have a: "CHR ''_'' \<in> set (t @ ''_'' @ n @ ?h)" by simp
      have b: "CHR ''_'' \<notin> set ''.''" by simp
      have "t @ ''_'' @ n @ ?h \<noteq> ''.''" using a b by metis
      moreover have "t @ ''_'' @ n @ ?h \<noteq> []" by simp
      ultimately show ?thesis by blast
    qed
    ultimately show ?thesis by (simp add: parse_parts_def)
  qed
  then show ?thesis by blast
qed

lemma get_output_path_inj:
  assumes "get_output_path pdf i out fmt = get_output_path pdf j out fmt"
  shows "i = j"
proof -
  let ?f = "\<lambda>k. stem pdf @ ''_'' @ format_03d (k + 1) @ ''.'' @ fmt"
  obtain pre t h rest where pp: "\<And>num. CHR ''/'' \<notin> set num \<Longrightarrow>
      parse_parts (stem pdf @ ''_'' @ num @ ''.'' @ fmt) = pre @ (t @ ''_'' @ num @ h) # rest"
    using parse_parts_filename [of "stem pdf" fmt] by blast
  have pi: "parse_parts (?f i) = pre @ (t @ ''_'' @ format_03d (i + 1) @ h) # rest"
    and pj: "parse_parts (?f j) = pre @ (t @ ''_'' @ format_03d (j + 1) @ h) # rest"
    by (rule pp, rule format_03d_no_slash)+
  have anch: "parse_anchor (?f i) = parse_anchor (?f j)"
    using parse_anchor_stem [of "stem pdf" "format_03d (i + 1) @ ''.'' @ fmt"]
          parse_anchor_stem [of "stem pdf" "format_03d (j + 1) @ ''.'' @ fmt"] by simp
  from assms have "truediv out (?f i) = truediv out (?f j)"
    by (simp add: get_output_path_def Let_def)
  then have "parse_parts (?f i) = parse_parts (?f j)"
    using anch by (auto simp: truediv_def split: if_splits)
  then have "format_03d (i + 1) = format_03d (j + 1)"
    using pi pj by simp
  then have "i + 1 = j + 1" by (rule format_03d_inj)
  then show ?thesis by simp
qed


lemma rfind_last_dot:
  assumes "CHR ''.'' \<notin> set ext"
  shows "rfind (CHR ''.'') (base @ ''.'' @ ext) = int (length base)"
proof -
  have "takeWhile (\<lambda>x. x \<noteq> CHR ''.'') (rev ext @ CHR ''.'' # rev base)
          = rev ext @ takeWhile (\<lambda>x. x \<noteq> CHR ''.'') (CHR ''.'' # rev base)"
    by (rule takeWhile_append2) (use assms in auto)
  then show ?thesis by (simp add: rfind_def)
qed

lemma stem_base:
  assumes "name pdf = base @ ''.'' @ ext" "base \<noteq> []" "ext \<noteq> []" "CHR ''.'' \<notin> set ext"
  shows "stem pdf = base"
  using assms rfind_last_dot [of ext base] by (simp add: stem_def Let_def)

lemma split_sep_plain: "CHR ''/'' \<notin> set f \<Longrightarrow> split_sep f = [f]"
  using split_sep_no_slash [of f "[]"] by simp

lemma parse_anchor_plain: "CHR ''/'' \<notin> set f \<Longrightarrow> parse_anchor f = []"
  by (auto simp: parse_anchor_def split: list.splits)

lemma truediv_plain:
  assumes "CHR ''/'' \<notin> set f" "f \<noteq> []" "f \<noteq> ''.''"
  shows "truediv p f = \<lparr>anchor = anchor p, parts = parts p @ [f]\<rparr>"
  using assms by (simp add: truediv_def parse_anchor_plain parse_parts_def split_sep_plain)

lemma format_03d_length: "3 \<le> length (format_03d n)"
  using zero_pad_length [of 3 "str_nat (nat n)"] zero_pad_length [of 2 "str_nat (nat (- n))"]
  by (simp add: format_03d_def)

lemma filename_plain:
  assumes "CHR ''/'' \<notin> set (stem pdf)" "CHR ''/'' \<notin> set fmt"
  shows "get_output_path pdf i out fmt =
           \<lparr>anchor = anchor out,
            parts = parts out @ [stem pdf @ ''_'' @ format_03d (i + 1) @ ''.'' @ fmt]\<rparr>"
proof -
  let ?f = "stem pdf @ ''_'' @ format_03d (i + 1) @ ''.'' @ fmt"
  have a: "CHR ''/'' \<notin> set ?f" using assms format_03d_no_slash [of "i + 1"] by simp
  have u: "CHR ''_'' \<in> set ?f" by simp
  have v: "CHR ''_'' \<notin> set ''.''" by simp
  have b: "?f \<noteq> ''.''" using u v by metis
  have c: "?f \<noteq> []" by simp
  show ?thesis using truediv_plain [OF a c b] by (simp add: get_output_path_def Let_def)
qed

text \<open>
  Claim C7. The output path of page index \<open>i\<close> is the output directory joined with the
  file name made of the stem of the source, an underscore, the page number \<open>i + 1\<close> and
  the format after a dot. The stem is the base name without its extension. For
  \<open>i \<ge> 0\<close> the page number is written in decimal and padded with zeros on the left to
  at least 3 digits. The path is a function of its arguments, and for a fixed source,
  output directory and format two page indices give the same path only if they are equal.
\<close>

theorem get_output_path_spec:
  "get_output_path pdf i out fmt
     = truediv out (stem pdf @ ''_'' @ format_03d (i + 1) @ ''.'' @ fmt)
   \<and> (\<forall>base ext. name pdf = base @ ''.'' @ ext \<and> base \<noteq> [] \<and> ext \<noteq> [] \<and> CHR ''.'' \<notin> set ext
         \<longrightarrow> stem pdf = base)
   \<and> (CHR ''/'' \<notin> set (stem pdf) \<and> CHR ''/'' \<notin> set fmt \<longrightarrow>
        get_output_path pdf i out fmt
          = \<lparr>anchor = anchor out,
             parts = parts out @ [stem pdf @ ''_'' @ format_03d (i + 1) @ ''.'' @ fmt]\<rparr>)
   \<and> (0 \<le> i \<longrightarrow>
        format_03d (i + 1)
          = replicate (3 - length (str_nat (nat (i + 1)))) (CHR ''0'') @ str_nat (nat (i + 1))
        \<and> parse_dec (str_nat (nat (i + 1))) = nat (i + 1)
        \<and> set (format_03d (i + 1)) \<subseteq> set ''0123456789''
        \<and> 3 \<le> length (format_03d (i + 1)))
   \<and> ((get_output_path pdf i out fmt = get_output_path pdf j out fmt) = (i = j))"
proof -
  have "get_output_path pdf i out fmt
          = truediv out (stem pdf @ ''_'' @ format_03d (i + 1) @ ''.'' @ fmt)"
    by (simp add: get_output_path_def Let_def)
  moreover have "\<forall>base ext. name pdf = base @ ''.'' @ ext \<and> base \<noteq> [] \<and> ext \<noteq> []
                   \<and> CHR ''.'' \<notin> set ext \<longrightarrow> stem pdf = base"
    using stem_base by blast
  moreover have "0 \<le> i \<longrightarrow>
        format_03d (i + 1)
          = replicate (3 - length (str_nat (nat (i + 1)))) (CHR ''0'') @ str_nat (nat (i + 1))
        \<and> parse_dec (str_nat (nat (i + 1))) = nat (i + 1)
        \<and> set (format_03d (i + 1)) \<subseteq> set ''0123456789''
        \<and> 3 \<le> length (format_03d (i + 1))"
  proof
    assume i: "0 \<le> i"
    then have "format_03d (i + 1)
          = replicate (3 - length (str_nat (nat (i + 1)))) (CHR ''0'') @ str_nat (nat (i + 1))"
      by (simp add: format_03d_nonneg zero_pad_def)
    moreover have "parse_dec (str_nat (nat (i + 1))) = nat (i + 1)"
      by (rule parse_dec_str_nat)
    moreover have "set (format_03d (i + 1)) \<subseteq> set ''0123456789''"
      using i by (intro format_03d_digits) simp
    moreover have "3 \<le> length (format_03d (i + 1))"
      by (rule format_03d_length)
    ultimately show "format_03d (i + 1)
          = replicate (3 - length (str_nat (nat (i + 1)))) (CHR ''0'') @ str_nat (nat (i + 1))
        \<and> parse_dec (str_nat (nat (i + 1))) = nat (i + 1)
        \<and> set (format_03d (i + 1)) \<subseteq> set ''0123456789''
        \<and> 3 \<le> length (format_03d (i + 1))"
      by blast
  qed
  moreover have "(get_output_path pdf i out fmt = get_output_path pdf j out fmt) = (i = j)"
    using get_output_path_inj by blast
  ultimately show ?thesis using filename_plain by blast
qed

text \<open>Page 1 of \<^verbatim>\<open>input/report.pdf\<close> goes to \<^verbatim>\<open>output/report_001.jpg\<close>.\<close>

theorem get_output_path_spec_witness:
  "get_output_path (\<lparr>anchor = [], parts = [''input'', ''report.pdf'']\<rparr>) 0 (\<lparr>anchor = [], parts = [''output'']\<rparr>) ''jpg''
     = \<lparr>anchor = [], parts = [''output'', ''report_001.jpg'']\<rparr>
   \<and> stem (\<lparr>anchor = [], parts = [''input'', ''report.pdf'']\<rparr>) = ''report''
   \<and> (0::int) \<le> 0
   \<and> format_03d (0 + 1) = ''001''
   \<and> get_output_path (\<lparr>anchor = [], parts = [''input'', ''report.pdf'']\<rparr>) 0 (\<lparr>anchor = [], parts = [''output'']\<rparr>) ''jpg''
       \<noteq> get_output_path (\<lparr>anchor = [], parts = [''input'', ''report.pdf'']\<rparr>) 1 (\<lparr>anchor = [], parts = [''output'']\<rparr>) ''jpg''"
proof -
  let ?pdf = "\<lparr>anchor = [], parts = [''input'', ''report.pdf'']\<rparr>"
  let ?out = "\<lparr>anchor = [], parts = [''output'']\<rparr>"
  have nm: "name ?pdf = ''report'' @ ''.'' @ ''pdf'' \<and> ''report'' \<noteq> [] \<and> ''pdf'' \<noteq> []
              \<and> CHR ''.'' \<notin> set ''pdf''"
    by (simp add: name_def)
  have spec: "(\<forall>base ext. name ?pdf = base @ ''.'' @ ext \<and> base \<noteq> [] \<and> ext \<noteq> []
                  \<and> CHR ''.'' \<notin> set ext \<longrightarrow> stem ?pdf = base)
     \<and> (CHR ''/'' \<notin> set (stem ?pdf) \<and> CHR ''/'' \<notin> set ''jpg'' \<longrightarrow>
          get_output_path ?pdf 0 ?out ''jpg''
            = \<lparr>anchor = anchor ?out,
               parts = parts ?out @ [stem ?pdf @ ''_'' @ format_03d (0 + 1) @ ''.'' @ ''jpg'']\<rparr>)
     \<and> ((0::int) \<le> 0 \<longrightarrow>
          format_03d (0 + 1)
            = replicate (3 - length (str_nat (nat (0 + 1)))) (CHR ''0'') @ str_nat (nat (0 + 1)))
     \<and> ((get_output_path ?pdf 0 ?out ''jpg'' = get_output_path ?pdf 1 ?out ''jpg'')
          = ((0::int) = 1))"
    using get_output_path_spec [of ?pdf 0 ?out "''jpg''" 1] by blast
  from spec nm have st: "stem ?pdf = ''report''" by blast
  have one: "str_nat (nat (0 + 1)) = ''1''" by code_simp
  from spec have "format_03d (0 + 1)
            = replicate (3 - length (str_nat (nat (0 + 1)))) (CHR ''0'') @ str_nat (nat (0 + 1))"
    by blast
  then have f: "format_03d (0 + 1) = ''001''" using one by (simp add: numeral_2_eq_2)
  have "CHR ''/'' \<notin> set (stem ?pdf) \<and> CHR ''/'' \<notin> set ''jpg''" by (simp add: st)
  with spec have "get_output_path ?pdf 0 ?out ''jpg''
            = \<lparr>anchor = anchor ?out,
               parts = parts ?out @ [stem ?pdf @ ''_'' @ format_03d (0 + 1) @ ''.'' @ ''jpg'']\<rparr>"
    by blast
  then have p: "get_output_path ?pdf 0 ?out ''jpg'' = \<lparr>anchor = [], parts = [''output'', ''report_001.jpg'']\<rparr>"
    using st f by simp
  from spec have d: "get_output_path ?pdf 0 ?out ''jpg'' \<noteq> get_output_path ?pdf 1 ?out ''jpg''"
    by simp
  show ?thesis using p st f d by simp
qed

subsection \<open>Rounding to binary64\<close>


































subsection \<open>Crop geometry\<close>








subsection \<open>The batch result\<close>

lemma add_preserves_invariant: "batch_invariant b \<Longrightarrow> batch_invariant (add b r)"
  by (cases "status r") (simp_all add: batch_invariant_def add_def)

lemma new_batch_invariant: "batch_invariant new_batch"
  by (simp add: batch_invariant_def new_batch_def)

lemma foldl_add_invariant: "batch_invariant b \<Longrightarrow> batch_invariant (foldl add b rs)"
  by (induction rs arbitrary: b) (simp_all add: add_preserves_invariant)

text \<open>
  Claim C9. Every batch result built from the empty one by a sequence of calls of
  \<open>add\<close>, with results of any status, has \<open>total_files\<close> equal to the sum of the four
  counters and equal to the length of the list of results.
\<close>

theorem batch_result_invariant:
  "total_files (foldl add new_batch rs)
     = success_count (foldl add new_batch rs) + partial_count (foldl add new_batch rs)
       + failed_count (foldl add new_batch rs) + skipped_count (foldl add new_batch rs)
   \<and> total_files (foldl add new_batch rs) = int (length (results (foldl add new_batch rs)))"
  using foldl_add_invariant [OF new_batch_invariant, of rs]
  by (simp add: batch_invariant_def)

subsection \<open>Skip policy\<close>

text \<open>
  Claim C6. \<open>should_skip_pdf\<close> returns false whenever overwrite is enabled or
  skip-if-exists is disabled; otherwise it returns true exactly if the output file of page
  index 0 exists.
\<close>

theorem should_skip_pdf_spec:
  "(overwrite s \<or> \<not> skip_if_exists s \<longrightarrow> fst (should_skip_pdf pdf s st) = False)
   \<and> (\<not> (overwrite s \<or> \<not> skip_if_exists s) \<longrightarrow>
        fst (should_skip_pdf pdf s st)
          = exists st (get_output_path pdf 0 (output_folder s) (format s)))"
  by (auto simp: should_skip_pdf_def Let_def)


lemma report_page_path:
  "get_output_path report_pdf 0 (output_folder default_settings) (format default_settings)
     = report_page 1"
  "get_output_path report_pdf 1 (output_folder default_settings) (format default_settings)
     = report_page 2"
  "get_output_path report_pdf 2 (output_folder default_settings) (format default_settings)
     = report_page 3"
  by code_simp+

text \<open>
  With the default settings \<^verbatim>\<open>report.pdf\<close> is skipped when \<^verbatim>\<open>report_001.jpg\<close> exists, and
  it is not skipped once overwrite is set.
\<close>

theorem should_skip_pdf_spec_witness:
  "\<not> (overwrite default_settings \<or> \<not> skip_if_exists default_settings)
   \<and> exists \<lparr>files = {report_page 1}, trace = []\<rparr> (report_page 1)
   \<and> fst (should_skip_pdf report_pdf default_settings \<lparr>files = {report_page 1}, trace = []\<rparr>)
   \<and> (overwrite (default_settings\<lparr>overwrite := True\<rparr>)
        \<or> \<not> skip_if_exists (default_settings\<lparr>overwrite := True\<rparr>))
   \<and> \<not> fst (should_skip_pdf report_pdf (default_settings\<lparr>overwrite := True\<rparr>)
              \<lparr>files = {report_page 1}, trace = []\<rparr>)"
proof -
  let ?st = "\<lparr>files = {report_page 1}, trace = []\<rparr>"
  have a: "\<not> (overwrite default_settings \<or> \<not> skip_if_exists default_settings)"
    by (simp add: default_settings_def)
  have b: "overwrite (default_settings\<lparr>overwrite := True\<rparr>)
        \<or> \<not> skip_if_exists (default_settings\<lparr>overwrite := True\<rparr>)"
    by simp
  have e: "exists ?st (report_page 1)" by (simp add: exists_def)
  from should_skip_pdf_spec [of default_settings report_pdf ?st] a
  have "fst (should_skip_pdf report_pdf default_settings ?st)
          = exists ?st (get_output_path report_pdf 0 (output_folder default_settings)
                          (format default_settings))"
    by blast
  with e have c: "fst (should_skip_pdf report_pdf default_settings ?st)"
    by (simp add: report_page_path)
  from should_skip_pdf_spec [of "default_settings\<lparr>overwrite := True\<rparr>" report_pdf ?st] b
  have d: "\<not> fst (should_skip_pdf report_pdf (default_settings\<lparr>overwrite := True\<rparr>) ?st)"
    by blast
  from a b c d e show ?thesis by blast
qed

subsection \<open>An empty batch\<close>

lemma sorted_paths_Nil: "(sorted_paths ps = []) = (ps = [])"
proof -
  have "length (sorted_paths ps) = length ps" by (simp add: sorted_paths_def)
  then show ?thesis by (metis length_0_conv)
qed

lemma glob_pdf_Nil: "(glob_pdf w d = []) = (filter is_pdf_name (listdir w d) = [])"
  by (simp add: glob_pdf_def)

text \<open>
  Claim C8, as amended. When the check of the input folder returns false, and when it
  returns true, the output directory can be created and no entry of the input folder
  matches \<^verbatim>\<open>*.pdf\<close>, \<open>convert_batch\<close> returns the empty batch result: all counters zero
  and no results; the case is logged, and the exit code computed from the result is 0.
  An error raised by the check of the input folder or by \<^verbatim>\<open>mkdir\<close>, which runs before the
  scan, is not caught: it leaves \<open>convert_batch\<close>.
\<close>

theorem convert_batch_empty:
  "(stat_error w (input_folder s) = None \<and> \<not> exists st (input_folder s) \<longrightarrow>
      convert_batch w s st
        = Inr (\<lparr>total_files = 0, success_count = 0, partial_count = 0, failed_count = 0,
                skipped_count = 0, results = []\<rparr>,
               emit (Log_input_not_found (input_folder s)) st))
   \<and> (stat_error w (input_folder s) = None \<and> exists st (input_folder s)
        \<and> mkdir_error w (output_folder s) = None
        \<and> filter is_pdf_name (listdir w (input_folder s)) = [] \<longrightarrow>
      convert_batch w s st
        = Inr (\<lparr>total_files = 0, success_count = 0, partial_count = 0, failed_count = 0,
                skipped_count = 0, results = []\<rparr>,
               emit (Log_no_pdf_found (input_folder s))
                 (emit (Call_mkdir (output_folder s))
                    (st\<lparr>files := files st \<union> set (ancestors (output_folder s))\<rparr>))))
   \<and> (\<forall>e. stat_error w (input_folder s) = Some e \<longrightarrow> convert_batch w s st = Inl e)
   \<and> (\<forall>e. stat_error w (input_folder s) = None \<and> exists st (input_folder s)
            \<and> mkdir_error w (output_folder s) = Some e \<longrightarrow>
          convert_batch w s st = Inl e)
   \<and> exit_code \<lparr>total_files = 0, success_count = 0, partial_count = 0, failed_count = 0,
                 skipped_count = 0, results = []\<rparr> = 0"
  by (simp add: convert_batch_def path_exists_def mkdir_def Let_def new_batch_def
      sorted_paths_Nil glob_pdf_Nil exit_code_def)

text \<open>
  The default settings, once without the directory \<^verbatim>\<open>input\<close> and once with a directory
  that holds only \<^verbatim>\<open>notes.txt\<close>, in a world where no system call fails.
\<close>

theorem convert_batch_empty_witness:
  "stat_error (sample_world (\<lambda>p. OtherError ''no such file'') [''notes.txt''])
     (input_folder default_settings) = None
   \<and> mkdir_error (sample_world (\<lambda>p. OtherError ''no such file'') [''notes.txt''])
        (output_folder default_settings) = None
   \<and> \<not> exists \<lparr>files = {}, trace = []\<rparr> (input_folder default_settings)
   \<and> convert_batch (sample_world (\<lambda>p. OtherError ''no such file'') [''notes.txt''])
        default_settings \<lparr>files = {}, trace = []\<rparr>
       = Inr (\<lparr>total_files = 0, success_count = 0, partial_count = 0, failed_count = 0,
               skipped_count = 0, results = []\<rparr>,
              \<lparr>files = {}, trace = [Log_input_not_found (input_folder default_settings)]\<rparr>)
   \<and> exists \<lparr>files = {input_folder default_settings}, trace = []\<rparr> (input_folder default_settings)
   \<and> filter is_pdf_name
        (listdir (sample_world (\<lambda>p. OtherError ''no such file'') [''notes.txt''])
           (input_folder default_settings)) = []
   \<and> (\<exists>st'. convert_batch (sample_world (\<lambda>p. OtherError ''no such file'') [''notes.txt''])
               default_settings \<lparr>files = {input_folder default_settings}, trace = []\<rparr>
             = Inr (\<lparr>total_files = 0, success_count = 0, partial_count = 0, failed_count = 0,
                     skipped_count = 0, results = []\<rparr>, st'))"
proof -
  let ?w = "sample_world (\<lambda>p. OtherError ''no such file'') [''notes.txt'']"
  let ?st0 = "\<lparr>files = {}, trace = []\<rparr>"
  let ?st1 = "\<lparr>files = {input_folder default_settings}, trace = []\<rparr>"
  have se: "stat_error ?w (input_folder default_settings) = None"
    and me: "mkdir_error ?w (output_folder default_settings) = None"
    by (simp_all add: sample_world_def)
  have a: "\<not> exists ?st0 (input_folder default_settings)" by (simp add: exists_def)
  have b: "exists ?st1 (input_folder default_settings)" by (simp add: exists_def)
  have c: "filter is_pdf_name (listdir ?w (input_folder default_settings)) = []"
    by (simp add: sample_world_def default_settings_def is_pdf_name_def)
  from convert_batch_empty [of ?w default_settings ?st0] se a
  have "convert_batch ?w default_settings ?st0
       = Inr (\<lparr>total_files = 0, success_count = 0, partial_count = 0, failed_count = 0,
               skipped_count = 0, results = []\<rparr>,
              emit (Log_input_not_found (input_folder default_settings)) ?st0)"
    by blast
  then have d: "convert_batch ?w default_settings ?st0
       = Inr (\<lparr>total_files = 0, success_count = 0, partial_count = 0, failed_count = 0,
               skipped_count = 0, results = []\<rparr>,
              \<lparr>files = {}, trace = [Log_input_not_found (input_folder default_settings)]\<rparr>)"
    by (simp add: emit_def)
  from convert_batch_empty [of ?w default_settings ?st1] se me b c
  have e: "\<exists>st'. convert_batch ?w default_settings ?st1
       = Inr (\<lparr>total_files = 0, success_count = 0, partial_count = 0, failed_count = 0,
               skipped_count = 0, results = []\<rparr>, st')"
    by blast
  from se me a b c d e show ?thesis by (intro conjI)
qed

text \<open>
  The claim as stated fails: the input folder exists and holds no document, the output
  folder is a regular file, and \<open>convert_batch\<close> raises instead of returning the empty
  result.
\<close>

theorem convert_batch_empty_counterexample:
  "exists blocked_sys (input_folder default_settings)
   \<and> filter is_pdf_name (listdir blocked_world (input_folder default_settings)) = []
   \<and> convert_batch blocked_world default_settings blocked_sys
       = Inl (OSError ''FileExistsError'')"
  by (simp add: convert_batch_def path_exists_def mkdir_def exists_def blocked_world_def
      blocked_sys_def sample_world_def default_settings_def is_pdf_name_def Let_def)

subsection \<open>One step of the page loop\<close>

lemma new_events_append: "trace st' = trace st @ evs \<Longrightarrow> new_events st st' = evs"
  by (simp add: new_events_def)

lemma page_body_existing:
  assumes "exists st (page_path s pdf i)" "\<not> overwrite s"
  shows "page_body w s doc cs pdf (r, st) i
           = (page_converted (page_path s pdf i) r,
              emit (Log_skipping_existing (page_path s pdf i)) st)"
  using assms by (simp add: page_body_def Let_def)

lemma page_body_step:
  assumes "page_body w s doc cs pdf (r, st) i = (r', st')"
  shows "\<exists>evs. trace st' = trace st @ evs
           \<and> files st \<subseteq> files st'
           \<and> List.map_filter (page_of_event s) evs = [page_path s pdf i]
           \<and> ((r' = page_converted (page_path s pdf i) r \<and> filter is_page_failure evs = [])
              \<or> (r' = r\<lparr>pages_failed := pages_failed r + 1\<rparr>
                  \<and> filter is_page_failure evs = [Log_page_failed (i + 1) pdf]
                  \<and> files st' = files st))"
  using assms
  by (auto simp: page_body_def Let_def emit_def write_file_def page_failed_def
      List.map_filter_simps split: if_splits option.splits prod.splits)


subsection \<open>The page loop\<close>

lemma map_filter_app:
  "List.map_filter f (xs @ ys) = List.map_filter f xs @ List.map_filter f ys"
  by (simp add: List.map_filter_def)

lemma page_fold_events:
  assumes "foldl (page_body w s doc cs pdf) (r, st) ps = (r', st')"
  shows "\<exists>evs. trace st' = trace st @ evs
           \<and> files st \<subseteq> files st'
           \<and> List.map_filter (page_of_event s) evs = map (page_path s pdf) ps
           \<and> pages_failed r' = pages_failed r + int (length (filter is_page_failure evs))
           \<and> pages_converted r' + pages_failed r'
               = pages_converted r + pages_failed r + int (length ps)"
  using assms
proof (induction ps arbitrary: r st)
  case Nil
  then show ?case by (simp add: List.map_filter_simps)
next
  case (Cons i ps)
  obtain r1 st1 where step: "page_body w s doc cs pdf (r, st) i = (r1, st1)"
    by (cases "page_body w s doc cs pdf (r, st) i")
  with Cons.prems have rest: "foldl (page_body w s doc cs pdf) (r1, st1) ps = (r', st')"
    by simp
  from page_body_step [OF step] obtain e1 where
    e1: "trace st1 = trace st @ e1" "files st \<subseteq> files st1"
      "List.map_filter (page_of_event s) e1 = [page_path s pdf i]"
    and c1: "(r1 = page_converted (page_path s pdf i) r \<and> filter is_page_failure e1 = [])
              \<or> (r1 = r\<lparr>pages_failed := pages_failed r + 1\<rparr>
                  \<and> filter is_page_failure e1 = [Log_page_failed (i + 1) pdf])"
    by blast
  from Cons.IH [OF rest] obtain e2 where
    e2: "trace st' = trace st1 @ e2" "files st1 \<subseteq> files st'"
      "List.map_filter (page_of_event s) e2 = map (page_path s pdf) ps"
      "pages_failed r' = pages_failed r1 + int (length (filter is_page_failure e2))"
      "pages_converted r' + pages_failed r'
         = pages_converted r1 + pages_failed r1 + int (length ps)"
    by blast
  have n1: "pages_failed r1 = pages_failed r + int (length (filter is_page_failure e1))"
    and n2: "pages_converted r1 + pages_failed r1 = pages_converted r + pages_failed r + 1"
    using c1 by (auto simp: page_converted_def)
  have "trace st' = trace st @ (e1 @ e2)" using e1(1) e2(1) by simp
  moreover have "files st \<subseteq> files st'" using e1(2) e2(2) by blast
  moreover have "List.map_filter (page_of_event s) (e1 @ e2) = map (page_path s pdf) (i # ps)"
    using e1(3) e2(3) by (simp add: map_filter_app)
  moreover have "pages_failed r' = pages_failed r + int (length (filter is_page_failure (e1 @ e2)))"
    using n1 e2(4) by simp
  moreover have "pages_converted r' + pages_failed r'
               = pages_converted r + pages_failed r + int (length (i # ps))"
    using n2 e2(5) by simp
  ultimately show ?case by blast
qed

lemma page_body_fields:
  assumes "page_body w s doc cs pdf (r, st) i = (r', st')"
  shows "error_message r' = error_message r \<and> status r' = status r \<and> pdf_path r' = pdf_path r
       \<and> pages_total r' = pages_total r
       \<and> pages_converted r \<le> pages_converted r' \<and> pages_failed r \<le> pages_failed r'
       \<and> int (length (output_files r')) - pages_converted r'
           = int (length (output_files r)) - pages_converted r"
  using page_body_step [OF assms] by (auto simp: page_converted_def)

lemma page_fold_fields:
  assumes "foldl (page_body w s doc cs pdf) (r, st) ps = (r', st')"
  shows "error_message r' = error_message r \<and> status r' = status r \<and> pdf_path r' = pdf_path r
       \<and> pages_total r' = pages_total r
       \<and> pages_converted r \<le> pages_converted r' \<and> pages_failed r \<le> pages_failed r'
       \<and> int (length (output_files r')) - pages_converted r'
           = int (length (output_files r)) - pages_converted r"
  using assms
proof (induction ps arbitrary: r st)
  case Nil
  then show ?case by simp
next
  case (Cons i ps)
  obtain r1 st1 where step: "page_body w s doc cs pdf (r, st) i = (r1, st1)"
    by (cases "page_body w s doc cs pdf (r, st) i")
  with Cons.prems have rest: "foldl (page_body w s doc cs pdf) (r1, st1) ps = (r', st')"
    by simp
  from page_body_fields [OF step] Cons.IH [OF rest] show ?case by simp
qed



subsection \<open>One document\<close>

lemma should_skip_False:
  "\<not> fst (should_skip_pdf pdf s st) \<Longrightarrow> should_skip_pdf pdf s st = (False, st)"
  by (simp add: should_skip_pdf_def Let_def split: if_splits)

lemma convert_pdf_reaches_loop:
  assumes "\<not> fst (should_skip_pdf pdf s st)" "pymupdf_open w pdf = Opened doc"
    "\<not> is_encrypted doc"
  shows "convert_pdf w pdf s st
           = final_status pdf (page_loop w s doc pdf (new_result pdf, emit (Call_open pdf) st))"
  using assms by (simp add: convert_pdf_def Let_def should_skip_False)

lemma page_loop_unfold:
  "page_loop w s doc pdf (r, st) = (r', st') \<Longrightarrow>
   \<exists>st2. foldl (page_body w s doc (if colorspace s = ''gray'' then CsGray else CsRgb) pdf)
            (r\<lparr>pages_total := int (page_count doc)\<rparr>, st)
            (py_range (pages_to_process s doc)) = (r', st2)
         \<and> st' = emit (Call_close pdf) st2"
  by (auto simp: page_loop_def Let_def split: prod.splits)

lemma pages_to_process_bounds:
  "0 \<le> pages_to_process s doc \<and> pages_to_process s doc \<le> int (page_count doc)"
  by (simp add: pages_to_process_def Let_def)

lemma final_status_counters:
  assumes "final_status pdf (r, st) = (r', st')"
  shows "pages_failed r' = pages_failed r \<and> pages_converted r' = pages_converted r
       \<and> pages_total r' = pages_total r \<and> output_files r' = output_files r
       \<and> pdf_path r' = pdf_path r \<and> files st' = files st
       \<and> (\<exists>e. trace st' = trace st @ [e] \<and> page_of_event s e = None \<and> \<not> is_page_failure e
              \<and> (\<forall>p. e \<noteq> Call_write p) \<and> (\<forall>p i. e \<noteq> Call_render p i)
              \<and> (\<forall>p. e \<noteq> Log_skipping_existing p))"
  using assms by (auto simp: final_status_def emit_def split: if_splits)

text \<open>
  Claim C2. For a document that reaches the page loop (not skipped, opened, not encrypted)
  the final status is success if no page failed, otherwise partial if some page was
  converted, otherwise failed with the message "All pages failed to render". A document
  without pages has both counters zero and is a success.
\<close>

theorem final_status_spec:
  assumes "\<not> fst (should_skip_pdf pdf s st)" and "pymupdf_open w pdf = Opened doc"
    and "\<not> is_encrypted doc" and "convert_pdf w pdf s st = (r, st')"
  shows "status r = (if pages_failed r = 0 then Success
                     else if pages_converted r > 0 then Partial else Failed)
       \<and> error_message r = (if pages_failed r = 0 then None
                            else if pages_converted r > 0 then None
                            else Some ''All pages failed to render'')
       \<and> (page_count doc = 0 \<longrightarrow>
            pages_failed r = 0 \<and> pages_converted r = 0 \<and> status r = Success)"
proof -
  obtain r1 st1 where loop:
    "page_loop w s doc pdf (new_result pdf, emit (Call_open pdf) st) = (r1, st1)"
    by (cases "page_loop w s doc pdf (new_result pdf, emit (Call_open pdf) st)")
  with convert_pdf_reaches_loop [OF assms(1-3)] assms(4)
  have fin: "final_status pdf (r1, st1) = (r, st')" by simp
  from page_loop_unfold [OF loop] obtain st2 where
    fold: "foldl (page_body w s doc (if colorspace s = ''gray'' then CsGray else CsRgb) pdf)
            ((new_result pdf)\<lparr>pages_total := int (page_count doc)\<rparr>, emit (Call_open pdf) st)
            (py_range (pages_to_process s doc)) = (r1, st2)"
    by blast
  from page_fold_fields [OF fold] have msg: "error_message r1 = None"
    by (simp add: new_result_def)
  from fin msg have main: "status r = (if pages_failed r = 0 then Success
                     else if pages_converted r > 0 then Partial else Failed)
       \<and> error_message r = (if pages_failed r = 0 then None
                            else if pages_converted r > 0 then None
                            else Some ''All pages failed to render'')"
    by (auto simp: final_status_def split: if_splits)
  have "pages_failed r = 0 \<and> pages_converted r = 0 \<and> status r = Success"
    if z: "page_count doc = 0"
  proof -
    from z have "py_range (pages_to_process s doc) = []"
      by (simp add: py_range_def pages_to_process_def Let_def)
    with fold have "r1 = (new_result pdf)\<lparr>pages_total := int (page_count doc)\<rparr>" by simp
    then have "pages_failed r1 = 0 \<and> pages_converted r1 = 0" by (simp add: new_result_def)
    with fin show ?thesis by (auto simp: final_status_def)
  qed
  with main show ?thesis by blast
qed

text \<open>
  A document of three pages whose second page cannot be rendered is partial; one whose
  pages all fail is failed; one without pages is a success.
\<close>

theorem final_status_spec_witness:
  "\<not> fst (should_skip_pdf report_pdf default_settings empty_sys)
   \<and> \<not> is_encrypted (sample_doc 3 [1])
   \<and> status (fst (convert_pdf (sample_world (\<lambda>p. Opened (sample_doc 3 [1])) [])
                    report_pdf default_settings empty_sys)) = Partial
   \<and> status (fst (convert_pdf (sample_world (\<lambda>p. Opened (sample_doc 2 [0, 1])) [])
                    report_pdf default_settings empty_sys)) = Failed
   \<and> error_message (fst (convert_pdf (sample_world (\<lambda>p. Opened (sample_doc 2 [0, 1])) [])
                    report_pdf default_settings empty_sys)) = Some ''All pages failed to render''
   \<and> page_count (sample_doc 0 []) = 0
   \<and> status (fst (convert_pdf (sample_world (\<lambda>p. Opened (sample_doc 0 [])) [])
                    report_pdf default_settings empty_sys)) = Success"
proof -
  let ?w = "\<lambda>d. sample_world (\<lambda>p. Opened d) []"
  let ?run = "\<lambda>d. convert_pdf (?w d) report_pdf default_settings empty_sys"
  have skip: "\<not> fst (should_skip_pdf report_pdf default_settings empty_sys)"
    by code_simp
  have opn: "pymupdf_open (?w d) report_pdf = Opened d" for d
    by (simp add: sample_world_def)
  have enc: "\<not> is_encrypted (sample_doc n bad)" for n bad
    by (simp add: sample_doc_def)
  have spec: "status (fst (?run (sample_doc n bad)))
                = (if pages_failed (fst (?run (sample_doc n bad))) = 0 then Success
                   else if pages_converted (fst (?run (sample_doc n bad))) > 0 then Partial
                   else Failed)
       \<and> error_message (fst (?run (sample_doc n bad)))
                = (if pages_failed (fst (?run (sample_doc n bad))) = 0 then None
                   else if pages_converted (fst (?run (sample_doc n bad))) > 0 then None
                   else Some ''All pages failed to render'')
       \<and> (page_count (sample_doc n bad) = 0 \<longrightarrow> status (fst (?run (sample_doc n bad))) = Success)"
    for n bad
    using final_status_spec [where pdf = report_pdf and s = default_settings and st = empty_sys
        and w = "?w (sample_doc n bad)" and doc = "sample_doc n bad"
        and r = "fst (?run (sample_doc n bad))" and st' = "snd (?run (sample_doc n bad))"]
      skip opn [of "sample_doc n bad"] enc [of n bad]
    by simp
  have c1: "pages_failed (fst (?run (sample_doc 3 [1]))) = 1"
    "pages_converted (fst (?run (sample_doc 3 [1]))) = 2"
    by code_simp+
  have c2: "pages_failed (fst (?run (sample_doc 2 [0, 1]))) = 2"
    "pages_converted (fst (?run (sample_doc 2 [0, 1]))) = 0"
    by code_simp+
  have c3: "page_count (sample_doc 0 []) = 0" by (simp add: sample_doc_def)
  from spec [of 3 "[1]"] c1 have r1: "status (fst (?run (sample_doc 3 [1]))) = Partial" by simp
  from spec [of 2 "[0, 1]"] c2 have r2: "status (fst (?run (sample_doc 2 [0, 1]))) = Failed"
    "error_message (fst (?run (sample_doc 2 [0, 1]))) = Some ''All pages failed to render''"
    by simp_all
  from spec [of 0 "[]"] c3 have r3: "status (fst (?run (sample_doc 0 []))) = Success" by blast
  from skip enc [of 3 "[1]"] r1 r2 c3 r3 show ?thesis by blast
qed

subsection \<open>Failures of single pages\<close>

lemma page_body_raises:
  assumes "page_raises w s doc cs pdf i" "overwrite s \<or> \<not> exists st (page_path s pdf i)"
  shows "page_body w s doc cs pdf (r, st) i
           = (r\<lparr>pages_failed := pages_failed r + 1\<rparr>,
              emit (Log_page_failed (i + 1) pdf) (emit (Call_render pdf i) st))"
  using assms
  by (auto simp: page_body_def page_raises_def page_failed_def Let_def
      split: option.splits prod.splits if_splits)

lemma page_body_failure_events:
  assumes "page_body w s doc cs pdf (r, st) i = (r1, st1)"
  shows "trace st1 = trace st @ new_events st st1"
    and "files st1 \<subseteq> insert (page_path s pdf i) (files st)"
    and "Log_page_failed k q \<in> set (new_events st st1) \<Longrightarrow>
           q = pdf \<and> k = i + 1 \<and> page_raises w s doc cs pdf i"
    and "page_raises w s doc cs pdf i \<Longrightarrow> overwrite s \<or> \<not> exists st (page_path s pdf i) \<Longrightarrow>
           Log_page_failed (i + 1) pdf \<in> set (new_events st st1)"
  using assms
  by (auto simp: page_body_def page_raises_def page_failed_def Let_def new_events_def emit_def
      write_file_def split: option.splits prod.splits if_splits)

lemma new_events_trans:
  assumes "trace st1 = trace st @ new_events st st1" "trace st2 = trace st1 @ new_events st1 st2"
  shows "new_events st st2 = new_events st st1 @ new_events st1 st2"
    and "trace st2 = trace st @ new_events st st2"
proof -
  have "trace st2 = trace st @ (new_events st st1 @ new_events st1 st2)"
    using assms by simp
  then show "new_events st st2 = new_events st st1 @ new_events st1 st2"
    by (rule new_events_append)
  then show "trace st2 = trace st @ new_events st st2"
    using assms by simp
qed

lemma page_fold_trace:
  assumes "foldl (page_body w s doc cs pdf) (r, st) ps = (r', st')"
  shows "trace st' = trace st @ new_events st st'"
proof -
  from page_fold_events [OF assms] obtain evs where "trace st' = trace st @ evs" by blast
  then show ?thesis by (simp add: new_events_def)
qed

lemma page_fold_failures:
  assumes "foldl (page_body w s doc cs pdf) (r, st) ps = (r', st')"
  shows "(\<forall>k q. Log_page_failed k q \<in> set (new_events st st') \<longrightarrow>
            q = pdf \<and> k - 1 \<in> set ps \<and> page_raises w s doc cs pdf (k - 1))
       \<and> (\<forall>i\<in>set ps. page_raises w s doc cs pdf i
              \<and> (overwrite s \<or> \<not> exists st (page_path s pdf i)) \<longrightarrow>
            Log_page_failed (i + 1) pdf \<in> set (new_events st st'))"
  using assms
proof (induction ps arbitrary: r st)
  case Nil
  then show ?case by (simp add: new_events_def)
next
  case (Cons x ps)
  obtain r1 st1 where step: "page_body w s doc cs pdf (r, st) x = (r1, st1)"
    by (cases "page_body w s doc cs pdf (r, st) x")
  with Cons.prems have rest: "foldl (page_body w s doc cs pdf) (r1, st1) ps = (r', st')"
    by simp
  note b = page_body_failure_events [OF step]
  note ih = Cons.IH [OF rest]
  have ev: "new_events st st' = new_events st st1 @ new_events st1 st'"
    by (rule new_events_trans(1) [OF b(1) page_fold_trace [OF rest]])
  have "q = pdf \<and> k - 1 \<in> set (x # ps) \<and> page_raises w s doc cs pdf (k - 1)"
    if "Log_page_failed k q \<in> set (new_events st st')" for k q
  proof -
    from that ev consider "Log_page_failed k q \<in> set (new_events st st1)"
      | "Log_page_failed k q \<in> set (new_events st1 st')" by auto
    then show ?thesis
    proof cases
      case 1
      from b(3) [OF 1] show ?thesis by simp
    next
      case 2
      with ih have "q = pdf \<and> k - 1 \<in> set ps \<and> page_raises w s doc cs pdf (k - 1)"
        by blast
      then show ?thesis by simp
    qed
  qed
  moreover have "Log_page_failed (i + 1) pdf \<in> set (new_events st st')"
    if i: "i \<in> set (x # ps)" and ra: "page_raises w s doc cs pdf i"
      and at: "overwrite s \<or> \<not> exists st (page_path s pdf i)" for i
  proof (cases "i = x")
    case True
    with b(4) ra at ev show ?thesis by simp
  next
    case False
    with i have ips: "i \<in> set ps" by simp
    have "page_path s pdf x \<noteq> page_path s pdf i"
      using False get_output_path_inj by blast
    with at b(2) have "overwrite s \<or> \<not> exists st1 (page_path s pdf i)"
      by (auto simp: exists_def)
    with ih ips ra have "Log_page_failed (i + 1) pdf \<in> set (new_events st1 st')" by blast
    with ev show ?thesis by simp
  qed
  ultimately show ?case by blast
qed


lemma convert_pdf_loop:
  assumes "\<not> fst (should_skip_pdf pdf s st)" "pymupdf_open w pdf = Opened doc"
    "\<not> is_encrypted doc" "convert_pdf w pdf s st = (r, st')"
    and fold: "foldl (page_body w s doc (colorspace_of s) pdf)
       ((new_result pdf)\<lparr>pages_total := int (page_count doc)\<rparr>, emit (Call_open pdf) st)
       (py_range (pages_to_process s doc)) = (r1, stl)"
  shows "trace st' = trace st @ new_events st st'"
    and "\<exists>e. new_events st st'
            = Call_open pdf # new_events (emit (Call_open pdf) st) stl @ [Call_close pdf, e]
          \<and> (e = Log_doc_success pdf \<or> e = Log_doc_partial pdf \<or> e = Log_doc_failed pdf)"
    and "pages_failed r = pages_failed r1" and "pages_converted r = pages_converted r1"
    and "output_files r = output_files r1" and "pages_total r = pages_total r1"
    and "files st' = files stl"
proof -
  let ?st0 = "emit (Call_open pdf) st"
  have loop: "page_loop w s doc pdf (new_result pdf, ?st0) = (r1, emit (Call_close pdf) stl)"
    using fold by (simp add: page_loop_def Let_def colorspace_of_def)
  with convert_pdf_reaches_loop [OF assms(1-3)] assms(4)
  have fin: "final_status pdf (r1, emit (Call_close pdf) stl) = (r, st')" by simp
  have t1: "trace stl = trace ?st0 @ new_events ?st0 stl"
    by (rule page_fold_trace [OF fold])
  from fin obtain e where e: "trace st' = trace stl @ [Call_close pdf, e]"
    "e = Log_doc_success pdf \<or> e = Log_doc_partial pdf \<or> e = Log_doc_failed pdf"
    by (auto simp: final_status_def emit_def split: if_splits)
  have "trace st' = trace st @ [Call_open pdf] @ new_events ?st0 stl @ [Call_close pdf, e]"
    by (subst e(1), subst t1) (simp add: emit_def)
  then have tr: "trace st' = trace st @ (Call_open pdf # new_events ?st0 stl @ [Call_close pdf, e])"
    by simp
  then have ne: "new_events st st' = Call_open pdf # new_events ?st0 stl @ [Call_close pdf, e]"
    by (rule new_events_append)
  show "trace st' = trace st @ new_events st st'" by (simp only: ne tr)
  show "\<exists>e. new_events st st'
            = Call_open pdf # new_events (emit (Call_open pdf) st) stl @ [Call_close pdf, e]
          \<and> (e = Log_doc_success pdf \<or> e = Log_doc_partial pdf \<or> e = Log_doc_failed pdf)"
    using ne e(2) by blast
  show "files st' = files stl"
    using fin by (auto simp: final_status_def emit_def split: if_splits)
  show "pages_failed r = pages_failed r1" "pages_converted r = pages_converted r1"
    "output_files r = output_files r1" "pages_total r = pages_total r1"
    using fin by (auto simp: final_status_def split: if_splits)
qed


lemma py_range_length: "int (length (py_range (pages_to_process s doc))) = pages_to_process s doc"
  using pages_to_process_bounds [of s doc] by (simp add: py_range_def)

text \<open>
  Claim C3. In a document that reaches the page loop every page index of the processed
  range is processed, in increasing order, whatever happens on the pages before it: the
  events that end the processing of a page are those of the pages 0, 1, ... of the range,
  each once. A failure while rendering, cropping or encoding a page is recorded for that
  page alone: \<open>pages_failed\<close> is the number of failure events, each failure event belongs to
  a page of the range on which rendering or saving raised, every such page that was
  attempted has one, and the two counters add up to the number of pages processed.
\<close>

theorem page_failures_isolated:
  assumes "\<not> fst (should_skip_pdf pdf s st)" and "pymupdf_open w pdf = Opened doc"
    and "\<not> is_encrypted doc" and "convert_pdf w pdf s st = (r, st')"
  shows "trace st' = trace st @ new_events st st'
       \<and> List.map_filter (page_of_event s) (new_events st st')
           = map (page_path s pdf) (py_range (pages_to_process s doc))
       \<and> pages_failed r = int (length (filter is_page_failure (new_events st st')))
       \<and> pages_converted r + pages_failed r = pages_to_process s doc
       \<and> (\<forall>k q. Log_page_failed k q \<in> set (new_events st st') \<longrightarrow>
             q = pdf \<and> k - 1 \<in> set (py_range (pages_to_process s doc))
             \<and> page_raises w s doc (colorspace_of s) pdf (k - 1))
       \<and> (\<forall>i\<in>set (py_range (pages_to_process s doc)).
             page_raises w s doc (colorspace_of s) pdf i
             \<and> (overwrite s \<or> \<not> exists st (page_path s pdf i)) \<longrightarrow>
             Log_page_failed (i + 1) pdf \<in> set (new_events st st'))"
proof -
  let ?st0 = "emit (Call_open pdf) st"
  let ?ps = "py_range (pages_to_process s doc)"
  let ?r0 = "(new_result pdf)\<lparr>pages_total := int (page_count doc)\<rparr>"
  obtain r1 stl where
    fold: "foldl (page_body w s doc (colorspace_of s) pdf) (?r0, ?st0) ?ps = (r1, stl)"
    by (cases "foldl (page_body w s doc (colorspace_of s) pdf) (?r0, ?st0) ?ps")
  note cl = convert_pdf_loop [OF assms fold]
  from cl(2) obtain e where
    ne: "new_events st st' = Call_open pdf # new_events ?st0 stl @ [Call_close pdf, e]"
    and e: "e = Log_doc_success pdf \<or> e = Log_doc_partial pdf \<or> e = Log_doc_failed pdf"
    by blast
  from page_fold_events [OF fold] obtain evs where
    evs: "trace stl = trace ?st0 @ evs"
      "List.map_filter (page_of_event s) evs = map (page_path s pdf) ?ps"
      "pages_failed r1 = pages_failed ?r0 + int (length (filter is_page_failure evs))"
      "pages_converted r1 + pages_failed r1
         = pages_converted ?r0 + pages_failed ?r0 + int (length ?ps)"
    by blast
  have loop_ev: "new_events ?st0 stl = evs" using evs(1) by (rule new_events_append)
  have ne': "new_events st st' = Call_open pdf # evs @ [Call_close pdf, e]"
    using ne loop_ev by simp
  have pe: "page_of_event s e = None" and fe: "\<not> is_page_failure e"
    and le: "\<And>k q. e \<noteq> Log_page_failed k q"
    using e by auto
  have a: "List.map_filter (page_of_event s) (new_events st st') = map (page_path s pdf) ?ps"
    using evs(2) pe by (simp add: ne' List.map_filter_simps map_filter_app)
  have b: "filter is_page_failure (new_events st st') = filter is_page_failure evs"
    using fe by (simp add: ne')
  have mem: "Log_page_failed k q \<in> set (new_events st st')
               \<longleftrightarrow> Log_page_failed k q \<in> set (new_events ?st0 stl)" for k q
    using le [of k q] by (auto simp: ne' loop_ev)
  have ex: "exists ?st0 p = exists st p" for p by (simp add: exists_def emit_def)
  note f = page_fold_failures [OF fold]
  have c: "\<forall>k q. Log_page_failed k q \<in> set (new_events st st') \<longrightarrow>
             q = pdf \<and> k - 1 \<in> set ?ps \<and> page_raises w s doc (colorspace_of s) pdf (k - 1)"
    using f mem by simp
  have d: "\<forall>i\<in>set ?ps. page_raises w s doc (colorspace_of s) pdf i
             \<and> (overwrite s \<or> \<not> exists st (page_path s pdf i)) \<longrightarrow>
             Log_page_failed (i + 1) pdf \<in> set (new_events st st')"
    using f mem ex by simp
  have n1: "pages_failed r = int (length (filter is_page_failure (new_events st st')))"
    using cl(3) evs(3) b by (simp add: new_result_def)
  have n2: "pages_converted r + pages_failed r = pages_to_process s doc"
    using cl(3,4) evs(4) py_range_length [of s doc] by (simp add: new_result_def)
  from cl(1) a n1 n2 c d show ?thesis by (intro conjI)
qed


text \<open>
  Three pages, the second of which cannot be rendered: the failure is recorded for page 2
  and page 3 is converted after it.
\<close>

theorem page_failures_isolated_witness:
  "\<not> fst (should_skip_pdf report_pdf default_settings empty_sys)
   \<and> \<not> is_encrypted (sample_doc 3 [1])
   \<and> page_raises (sample_world (\<lambda>p. Opened (sample_doc 3 [1])) []) default_settings
        (sample_doc 3 [1]) (colorspace_of default_settings) report_pdf 1
   \<and> Log_page_failed 2 report_pdf
        \<in> set (new_events empty_sys
                 (snd (convert_pdf (sample_world (\<lambda>p. Opened (sample_doc 3 [1])) [])
                         report_pdf default_settings empty_sys)))
   \<and> List.map_filter (page_of_event default_settings)
        (new_events empty_sys
           (snd (convert_pdf (sample_world (\<lambda>p. Opened (sample_doc 3 [1])) [])
                   report_pdf default_settings empty_sys)))
       = [report_page 1, report_page 2, report_page 3]
   \<and> pages_converted (fst (convert_pdf (sample_world (\<lambda>p. Opened (sample_doc 3 [1])) [])
                              report_pdf default_settings empty_sys))
       + pages_failed (fst (convert_pdf (sample_world (\<lambda>p. Opened (sample_doc 3 [1])) [])
                              report_pdf default_settings empty_sys)) = 3"
proof -
  let ?d = "sample_doc 3 [1]"
  let ?w = "sample_world (\<lambda>p. Opened ?d) []"
  let ?run = "convert_pdf ?w report_pdf default_settings empty_sys"
  have skip: "\<not> fst (should_skip_pdf report_pdf default_settings empty_sys)"
    by code_simp
  have opn: "pymupdf_open ?w report_pdf = Opened ?d"
    by (simp add: sample_world_def)
  have enc: "\<not> is_encrypted ?d"
    by (simp add: sample_doc_def)
  have run: "?run = (fst ?run, snd ?run)" by simp
  note spec = page_failures_isolated [OF skip opn enc run]
  have rng: "py_range (pages_to_process default_settings ?d) = [0, 1, 2]"
    by code_simp
  have n: "pages_to_process default_settings ?d = 3"
    by code_simp
  have ra: "page_raises ?w default_settings ?d (colorspace_of default_settings) report_pdf 1"
    by code_simp
  have ex: "\<not> exists empty_sys (page_path default_settings report_pdf 1)"
    by (simp add: exists_def empty_sys_def)
  have "1 \<in> set (py_range (pages_to_process default_settings ?d))"
    by (simp add: rng)
  with spec ra ex have "Log_page_failed (1 + 1) report_pdf \<in> set (new_events empty_sys (snd ?run))"
    by blast
  then have a: "Log_page_failed 2 report_pdf \<in> set (new_events empty_sys (snd ?run))"
    by simp
  from spec have "List.map_filter (page_of_event default_settings) (new_events empty_sys (snd ?run))
       = map (page_path default_settings report_pdf)
           (py_range (pages_to_process default_settings ?d))"
    by blast
  then have b: "List.map_filter (page_of_event default_settings)
                  (new_events empty_sys (snd ?run))
       = [report_page 1, report_page 2, report_page 3]"
    by (simp add: rng report_page_path)
  from spec have "pages_converted (fst ?run) + pages_failed (fst ?run)
                   = pages_to_process default_settings ?d"
    by blast
  then have c: "pages_converted (fst ?run) + pages_failed (fst ?run) = 3"
    by (simp only: n)
  from skip enc ra a b c show ?thesis by (intro conjI)
qed

subsection \<open>Pages whose output exists\<close>

lemma page_body_present:
  assumes "\<not> overwrite s" "exists st q" "page_body w s doc cs pdf (r, st) j = (r1, st1)"
  shows "exists st1 q"
    and "Call_write q \<notin> set (new_events st st1)"
    and "set (output_files r) \<subseteq> set (output_files r1)"
    and "q = page_path s pdf j \<Longrightarrow>
           new_events st st1 = [Log_skipping_existing q] \<and> q \<in> set (output_files r1)"
    and "Call_render pdf i \<in> set (new_events st st1) \<Longrightarrow> i = j \<and> q \<noteq> page_path s pdf j"
  using assms
  by (auto simp: page_body_def page_failed_def page_converted_def Let_def new_events_def
      emit_def write_file_def exists_def split: option.splits prod.splits if_splits)

lemma page_fold_present:
  assumes "\<not> overwrite s" "exists st (page_path s pdf i)"
    "foldl (page_body w s doc cs pdf) (r, st) ps = (r', st')"
  shows "exists st' (page_path s pdf i)
       \<and> Call_write (page_path s pdf i) \<notin> set (new_events st st')
       \<and> Call_render pdf i \<notin> set (new_events st st')
       \<and> set (output_files r) \<subseteq> set (output_files r')
       \<and> (i \<in> set ps \<longrightarrow> page_path s pdf i \<in> set (output_files r')
              \<and> Log_skipping_existing (page_path s pdf i) \<in> set (new_events st st'))"
  using assms(2,3)
proof (induction ps arbitrary: r st)
  case Nil
  then show ?case by (simp add: new_events_def)
next
  case (Cons x ps)
  let ?q = "page_path s pdf i"
  obtain r1 st1 where step: "page_body w s doc cs pdf (r, st) x = (r1, st1)"
    by (cases "page_body w s doc cs pdf (r, st) x")
  with Cons.prems have rest: "foldl (page_body w s doc cs pdf) (r1, st1) ps = (r', st')"
    by simp
  note b = page_body_present [OF assms(1) Cons.prems(1) step]
  note ih = Cons.IH [OF b(1) rest]
  have ev: "new_events st st' = new_events st st1 @ new_events st1 st'"
    by (rule new_events_trans(1) [OF page_body_failure_events(1) [OF step] page_fold_trace [OF rest]])
  have r: "Call_render pdf i \<notin> set (new_events st st1)"
    using b(5) [of i] by blast
  have "exists st' ?q" using ih by blast
  moreover have "Call_write ?q \<notin> set (new_events st st')"
    using b(2) ih by (simp add: ev)
  moreover have "Call_render pdf i \<notin> set (new_events st st')"
    using r ih by (simp add: ev)
  moreover have "set (output_files r) \<subseteq> set (output_files r')"
    using b(3) ih by blast
  moreover have "?q \<in> set (output_files r') \<and> Log_skipping_existing ?q \<in> set (new_events st st')"
    if "i \<in> set (x # ps)"
  proof (cases "i = x")
    case True
    with b(4) have "new_events st st1 = [Log_skipping_existing ?q]" "?q \<in> set (output_files r1)"
      by simp_all
    with ih show ?thesis by (auto simp: ev)
  next
    case False
    with that have "i \<in> set ps" by simp
    with ih show ?thesis by (simp add: ev)
  qed
  ultimately show ?case by blast
qed

lemma page_body_skip_policy:
  "page_body w (s\<lparr>skip_if_exists := b\<rparr>) doc cs pdf acc i = page_body w s doc cs pdf acc i"
  by (cases acc) (auto simp: page_body_def Let_def split: option.splits prod.splits)


text \<open>
  Claim C5. When the output file of a page exists and overwrite is false, the loop body
  counts the page as converted and appends its path, and records nothing but the line
  that the page is skipped: nothing is rendered and nothing is written. The body does not
  read the skip-if-exists flag. In a document that reaches the page loop this holds for
  every page index of the processed range whose output file exists.
\<close>

theorem existing_page_counted:
  assumes "\<not> overwrite s" and "exists st (page_path s pdf i)"
  shows "page_body w s doc cs pdf (r0, st) i
           = (r0\<lparr>pages_converted := pages_converted r0 + 1,
                 output_files := output_files r0 @ [page_path s pdf i]\<rparr>,
              st\<lparr>trace := trace st @ [Log_skipping_existing (page_path s pdf i)]\<rparr>)
       \<and> page_body w (s\<lparr>skip_if_exists := b\<rparr>) doc cs pdf (r0, st) i
           = page_body w s doc cs pdf (r0, st) i
       \<and> (\<not> fst (should_skip_pdf pdf s st) \<and> pymupdf_open w pdf = Opened doc
            \<and> \<not> is_encrypted doc \<and> i \<in> set (py_range (pages_to_process s doc)) \<longrightarrow>
            page_path s pdf i \<in> set (output_files (fst (convert_pdf w pdf s st)))
            \<and> Log_skipping_existing (page_path s pdf i)
                 \<in> set (new_events st (snd (convert_pdf w pdf s st)))
            \<and> Call_render pdf i \<notin> set (new_events st (snd (convert_pdf w pdf s st)))
            \<and> Call_write (page_path s pdf i)
                 \<notin> set (new_events st (snd (convert_pdf w pdf s st))))"
proof -
  let ?q = "page_path s pdf i"
  have step: "page_body w s doc cs pdf (r0, st) i
           = (r0\<lparr>pages_converted := pages_converted r0 + 1,
                 output_files := output_files r0 @ [?q]\<rparr>,
              st\<lparr>trace := trace st @ [Log_skipping_existing ?q]\<rparr>)"
    using page_body_existing [OF assms(2,1)] by (simp add: page_converted_def emit_def)
  have loop: "?q \<in> set (output_files (fst (convert_pdf w pdf s st)))
            \<and> Log_skipping_existing ?q \<in> set (new_events st (snd (convert_pdf w pdf s st)))
            \<and> Call_render pdf i \<notin> set (new_events st (snd (convert_pdf w pdf s st)))
            \<and> Call_write ?q \<notin> set (new_events st (snd (convert_pdf w pdf s st)))"
    if reach: "\<not> fst (should_skip_pdf pdf s st)" "pymupdf_open w pdf = Opened doc"
      "\<not> is_encrypted doc" and i: "i \<in> set (py_range (pages_to_process s doc))"
  proof -
    let ?st0 = "emit (Call_open pdf) st"
    let ?ps = "py_range (pages_to_process s doc)"
    let ?r0 = "(new_result pdf)\<lparr>pages_total := int (page_count doc)\<rparr>"
    let ?run = "convert_pdf w pdf s st"
    obtain r1 stl where
      fold: "foldl (page_body w s doc (colorspace_of s) pdf) (?r0, ?st0) ?ps = (r1, stl)"
      by (cases "foldl (page_body w s doc (colorspace_of s) pdf) (?r0, ?st0) ?ps")
    have run: "?run = (fst ?run, snd ?run)" by simp
    note cl = convert_pdf_loop [OF reach run fold]
    from cl(2) obtain e where
      ne: "new_events st (snd ?run) = Call_open pdf # new_events ?st0 stl @ [Call_close pdf, e]"
      and e: "e = Log_doc_success pdf \<or> e = Log_doc_partial pdf \<or> e = Log_doc_failed pdf"
      by blast
    have ex0: "exists ?st0 ?q" using assms(2) by (simp add: exists_def emit_def)
    from page_fold_present [OF assms(1) ex0 fold] i
    have p: "Call_write ?q \<notin> set (new_events ?st0 stl)"
      "Call_render pdf i \<notin> set (new_events ?st0 stl)"
      "?q \<in> set (output_files r1)"
      "Log_skipping_existing ?q \<in> set (new_events ?st0 stl)"
      by simp_all
    have "?q \<in> set (output_files (fst ?run))" using p(3) cl(5) by simp
    moreover have "Log_skipping_existing ?q \<in> set (new_events st (snd ?run))"
      using p(4) by (simp add: ne)
    moreover have "Call_render pdf i \<notin> set (new_events st (snd ?run))"
      using p(2) e by (auto simp: ne)
    moreover have "Call_write ?q \<notin> set (new_events st (snd ?run))"
      using p(1) e by (auto simp: ne)
    ultimately show ?thesis by (intro conjI)
  qed
  have pol: "page_body w (s\<lparr>skip_if_exists := b\<rparr>) doc cs pdf (r0, st) i
           = page_body w s doc cs pdf (r0, st) i"
    by (rule page_body_skip_policy)
  from step pol loop show ?thesis by blast
qed


text \<open>
  The images of pages 1 and 2 of a document of three pages exist: page 2 is counted
  without being rendered.
\<close>

theorem existing_page_counted_witness:
  "\<not> overwrite resume_settings
   \<and> exists resume_sys (page_path resume_settings report_pdf 1)
   \<and> \<not> fst (should_skip_pdf report_pdf resume_settings resume_sys)
   \<and> \<not> is_encrypted (sample_doc 3 [])
   \<and> 1 \<in> set (py_range (pages_to_process resume_settings (sample_doc 3 [])))
   \<and> report_page 2
        \<in> set (output_files (fst (convert_pdf (sample_world (\<lambda>p. Opened (sample_doc 3 [])) [])
                                     report_pdf resume_settings resume_sys)))
   \<and> Call_render report_pdf 1
        \<notin> set (new_events resume_sys
                 (snd (convert_pdf (sample_world (\<lambda>p. Opened (sample_doc 3 [])) [])
                         report_pdf resume_settings resume_sys)))"
proof -
  let ?d = "sample_doc 3 []"
  let ?w = "sample_world (\<lambda>p. Opened ?d) []"
  let ?run = "convert_pdf ?w report_pdf resume_settings resume_sys"
  have ow: "\<not> overwrite resume_settings"
    by (simp add: resume_settings_def default_settings_def)
  have pp: "page_path resume_settings report_pdf 1 = report_page 2"
    by code_simp
  have ex: "exists resume_sys (page_path resume_settings report_pdf 1)"
    by (simp add: pp exists_def resume_sys_def)
  have skip: "\<not> fst (should_skip_pdf report_pdf resume_settings resume_sys)"
    by (simp add: should_skip_pdf_def resume_settings_def)
  have opn: "pymupdf_open ?w report_pdf = Opened ?d"
    by (simp add: sample_world_def)
  have enc: "\<not> is_encrypted ?d"
    by (simp add: sample_doc_def)
  have rng: "1 \<in> set (py_range (pages_to_process resume_settings ?d))"
    by code_simp
  from existing_page_counted [OF ow ex, of ?w ?d] skip opn enc rng
  have "page_path resume_settings report_pdf 1 \<in> set (output_files (fst ?run))
      \<and> Call_render report_pdf 1 \<notin> set (new_events resume_sys (snd ?run))"
    by blast
  then have "report_page 2 \<in> set (output_files (fst ?run))
      \<and> Call_render report_pdf 1 \<notin> set (new_events resume_sys (snd ?run))"
    by (simp only: pp simp_thms)
  with ow ex skip enc rng show ?thesis by (intro conjI) blast+
qed

subsection \<open>The list of output files\<close>

lemma convert_pdf_cases:
  assumes "convert_pdf w pdf s st = (r, st')"
  shows "(output_files r = [] \<and> pages_converted r = 0 \<and> pages_failed r = 0
            \<and> pages_total r = 0 \<and> pdf_path r = pdf \<and> (status r = Skipped \<or> status r = Failed))
       \<or> (\<exists>doc. \<not> fst (should_skip_pdf pdf s st) \<and> pymupdf_open w pdf = Opened doc
                  \<and> \<not> is_encrypted doc)"
proof (cases "fst (should_skip_pdf pdf s st)")
  case True
  then obtain st1 where "should_skip_pdf pdf s st = (True, st1)"
    by (cases "should_skip_pdf pdf s st") simp
  with assms show ?thesis by (auto simp: convert_pdf_def Let_def new_result_def)
next
  case False
  note sk = should_skip_False [OF False]
  show ?thesis
  proof (cases "pymupdf_open w pdf")
    case (FileDataError e)
    with assms sk show ?thesis by (auto simp: convert_pdf_def Let_def new_result_def)
  next
    case (OtherError e)
    with assms sk show ?thesis by (auto simp: convert_pdf_def Let_def new_result_def)
  next
    case (Opened doc)
    show ?thesis
    proof (cases "is_encrypted doc")
      case True
      with assms sk Opened show ?thesis by (auto simp: convert_pdf_def Let_def new_result_def)
    next
      case enc: False
      with False Opened show ?thesis by blast
    qed
  qed
qed

lemma page_body_output:
  assumes "page_body w s doc cs pdf (r, st) x = (r1, st1)"
  shows "output_files r1 = output_files r \<or> output_files r1 = output_files r @ [page_path s pdf x]"
  using page_body_step [OF assms] by (auto simp: page_converted_def)

lemma page_fold_output:
  assumes "sorted_wrt (<) ps" "foldl (page_body w s doc cs pdf) (r, st) ps = (r', st')"
  shows "\<exists>qs. sorted_wrt (<) qs \<and> set qs \<subseteq> set ps
            \<and> output_files r' = output_files r @ map (page_path s pdf) qs"
  using assms
proof (induction ps arbitrary: r st)
  case Nil
  have "sorted_wrt (<) ([] :: int list) \<and> set ([] :: int list) \<subseteq> set []
          \<and> output_files r' = output_files r @ map (page_path s pdf) []"
    using Nil by simp
  then show ?case by blast
next
  case (Cons x ps)
  obtain r1 st1 where step: "page_body w s doc cs pdf (r, st) x = (r1, st1)"
    by (cases "page_body w s doc cs pdf (r, st) x")
  with Cons.prems have rest: "foldl (page_body w s doc cs pdf) (r1, st1) ps = (r', st')"
    by simp
  from Cons.prems(1) have srt: "sorted_wrt (<) ps" and lt: "\<forall>y\<in>set ps. x < y" by simp_all
  from Cons.IH [OF srt rest] obtain qs where
    qs: "sorted_wrt (<) qs" "set qs \<subseteq> set ps"
      "output_files r' = output_files r1 @ map (page_path s pdf) qs"
    by blast
  from page_body_output [OF step] show ?case
  proof
    assume "output_files r1 = output_files r"
    with qs have "sorted_wrt (<) qs \<and> set qs \<subseteq> set (x # ps)
            \<and> output_files r' = output_files r @ map (page_path s pdf) qs"
      by auto
    then show ?thesis by blast
  next
    assume "output_files r1 = output_files r @ [page_path s pdf x]"
    with qs lt have "sorted_wrt (<) (x # qs) \<and> set (x # qs) \<subseteq> set (x # ps)
            \<and> output_files r' = output_files r @ map (page_path s pdf) (x # qs)"
      by auto
    then show ?thesis by blast
  qed
qed

lemma py_range_sorted: "sorted_wrt (<) (py_range n)"
  by (simp add: py_range_def sorted_wrt_map)

lemma py_range_set: "set (py_range n) = {0..<n}"
proof -
  have "int ` {0..<nat n} = {0..<n}"
  proof (rule set_eqI)
    fix x :: int
    show "x \<in> int ` {0..<nat n} \<longleftrightarrow> x \<in> {0..<n}"
    proof
      assume "x \<in> int ` {0..<nat n}"
      then obtain k where "x = int k" "k < nat n" by auto
      then show "x \<in> {0..<n}" by simp
    next
      assume "x \<in> {0..<n}"
      then have "x = int (nat x)" "nat x < nat n" by simp_all
      then show "x \<in> int ` {0..<nat n}" by (metis atLeastLessThan_iff le0 image_eqI)
    qed
  qed
  then show ?thesis by (simp add: py_range_def)
qed

text \<open>
  Claim C10. In every result of \<open>convert_pdf\<close> the list of output files is as long as
  \<open>pages_converted\<close> says, and it lists the paths of a strictly increasing sequence of
  page indices of the document: each page counted as converted, rendered now or found
  present, contributes its path once, in the order of the loop.
\<close>

theorem output_files_invariant:
  assumes "convert_pdf w pdf s st = (r, st')"
  shows "int (length (output_files r)) = pages_converted r
       \<and> (\<exists>qs. sorted_wrt (<) qs \<and> set qs \<subseteq> {0..<pages_total r}
                \<and> output_files r = map (page_path s pdf) qs)"
proof -
  from convert_pdf_cases [OF assms] show ?thesis
  proof
    assume e: "output_files r = [] \<and> pages_converted r = 0 \<and> pages_failed r = 0
            \<and> pages_total r = 0 \<and> pdf_path r = pdf \<and> (status r = Skipped \<or> status r = Failed)"
    then have "sorted_wrt (<) ([] :: int list) \<and> set ([] :: int list) \<subseteq> {0..<pages_total r}
                \<and> output_files r = map (page_path s pdf) []"
      by simp
    then have "\<exists>qs. sorted_wrt (<) qs \<and> set qs \<subseteq> {0..<pages_total r}
                \<and> output_files r = map (page_path s pdf) qs"
      by blast
    with e show ?thesis by simp
  next
    assume "\<exists>doc. \<not> fst (should_skip_pdf pdf s st) \<and> pymupdf_open w pdf = Opened doc
                  \<and> \<not> is_encrypted doc"
    then obtain doc where reach: "\<not> fst (should_skip_pdf pdf s st)"
      "pymupdf_open w pdf = Opened doc" "\<not> is_encrypted doc"
      by blast
    let ?st0 = "emit (Call_open pdf) st"
    let ?ps = "py_range (pages_to_process s doc)"
    let ?r0 = "(new_result pdf)\<lparr>pages_total := int (page_count doc)\<rparr>"
    obtain r1 stl where
      fold: "foldl (page_body w s doc (colorspace_of s) pdf) (?r0, ?st0) ?ps = (r1, stl)"
      by (cases "foldl (page_body w s doc (colorspace_of s) pdf) (?r0, ?st0) ?ps")
    note cl = convert_pdf_loop [OF reach assms fold]
    note fl = page_fold_fields [OF fold]
    have len: "int (length (output_files r)) = pages_converted r"
      using fl cl(4,5) by (simp add: new_result_def)
    have tot: "pages_total r = int (page_count doc)"
      using fl cl(6) by simp
    from page_fold_output [OF py_range_sorted fold] obtain qs where
      qs: "sorted_wrt (<) qs" "set qs \<subseteq> set ?ps"
        "output_files r1 = output_files ?r0 @ map (page_path s pdf) qs"
      by blast
    have "pages_to_process s doc \<le> pages_total r"
      using pages_to_process_bounds [of s doc] by (simp add: tot)
    then have "set ?ps \<subseteq> {0..<pages_total r}"
      by (simp add: py_range_set)
    with qs(2) have sub: "set qs \<subseteq> {0..<pages_total r}" by (rule subset_trans)
    have "output_files r = map (page_path s pdf) qs"
      using qs(3) cl(5) by (simp add: new_result_def)
    with qs(1) sub have "\<exists>qs. sorted_wrt (<) qs \<and> set qs \<subseteq> {0..<pages_total r}
                \<and> output_files r = map (page_path s pdf) qs"
      by blast
    with len show ?thesis by simp
  qed
qed


text \<open>
  A document of three pages: the image of page 1 is present, page 2 cannot be rendered,
  page 3 is rendered. The output files are those of the page indices 0 and 2.
\<close>

theorem output_files_invariant_witness:
  "int (length (output_files
          (fst (convert_pdf (sample_world (\<lambda>p. Opened (sample_doc 3 [1])) []) report_pdf
                  resume_settings \<lparr>files = {report_page 1}, trace = []\<rparr>))))
     = pages_converted
         (fst (convert_pdf (sample_world (\<lambda>p. Opened (sample_doc 3 [1])) []) report_pdf
                 resume_settings \<lparr>files = {report_page 1}, trace = []\<rparr>))
   \<and> sorted_wrt (<) [0, 2 :: int]
   \<and> output_files
         (fst (convert_pdf (sample_world (\<lambda>p. Opened (sample_doc 3 [1])) []) report_pdf
                 resume_settings \<lparr>files = {report_page 1}, trace = []\<rparr>))
       = map (page_path resume_settings report_pdf) [0, 2]
   \<and> map (page_path resume_settings report_pdf) [0, 2] = [report_page 1, report_page 3]"
proof -
  let ?w = "sample_world (\<lambda>p. Opened (sample_doc 3 [1])) []"
  let ?st = "\<lparr>files = {report_page 1}, trace = []\<rparr>"
  let ?run = "convert_pdf ?w report_pdf resume_settings ?st"
  have run: "?run = (fst ?run, snd ?run)" by simp
  from output_files_invariant [OF run]
  have a: "int (length (output_files (fst ?run))) = pages_converted (fst ?run)" by blast
  have b: "sorted_wrt (<) [0, 2 :: int]" by simp
  have c: "map (page_path resume_settings report_pdf) [0, 2] = [report_page 1, report_page 3]"
    by code_simp
  have d: "output_files (fst ?run) = [report_page 1, report_page 3]"
    by code_simp
  from a b c d show ?thesis by simp
qed

subsection \<open>Fail-fast\<close>

lemma results_add: "results (add b r) = results b @ [r]"
  by (cases "status r") (simp_all add: add_def)

lemma convert_pdf_pdf_path:
  assumes "convert_pdf w pdf s st = (r, st')"
  shows "pdf_path r = pdf"
proof -
  from convert_pdf_cases [OF assms] show ?thesis
  proof
    assume "output_files r = [] \<and> pages_converted r = 0 \<and> pages_failed r = 0
            \<and> pages_total r = 0 \<and> pdf_path r = pdf \<and> (status r = Skipped \<or> status r = Failed)"
    then show ?thesis by simp
  next
    assume "\<exists>doc. \<not> fst (should_skip_pdf pdf s st) \<and> pymupdf_open w pdf = Opened doc
                  \<and> \<not> is_encrypted doc"
    then obtain doc where reach: "\<not> fst (should_skip_pdf pdf s st)"
      "pymupdf_open w pdf = Opened doc" "\<not> is_encrypted doc"
      by blast
    obtain r1 st1 where loop:
      "page_loop w s doc pdf (new_result pdf, emit (Call_open pdf) st) = (r1, st1)"
      by (cases "page_loop w s doc pdf (new_result pdf, emit (Call_open pdf) st)")
    with convert_pdf_reaches_loop [OF reach] assms
    have fin: "final_status pdf (r1, st1) = (r, st')" by simp
    from page_loop_unfold [OF loop] obtain st2 where
      fold: "foldl (page_body w s doc (if colorspace s = ''gray'' then CsGray else CsRgb) pdf)
            ((new_result pdf)\<lparr>pages_total := int (page_count doc)\<rparr>, emit (Call_open pdf) st)
            (py_range (pages_to_process s doc)) = (r1, st2)"
      by blast
    from page_fold_fields [OF fold] have "pdf_path r1 = pdf" by (simp add: new_result_def)
    with final_status_counters [OF fin] show ?thesis by simp
  qed
qed

lemma page_body_fail_fast:
  "page_body w (s\<lparr>fail_fast := f\<rparr>) doc cs pdf = page_body w s doc cs pdf"
proof (rule ext, rule ext)
  fix acc i
  show "page_body w (s\<lparr>fail_fast := f\<rparr>) doc cs pdf acc i = page_body w s doc cs pdf acc i"
    by (cases acc) (auto simp: page_body_def Let_def split: option.splits prod.splits)
qed

lemma convert_pdf_fail_fast:
  "convert_pdf w pdf (s\<lparr>fail_fast := f\<rparr>) st = convert_pdf w pdf s st"
proof -
  have sk: "should_skip_pdf pdf (s\<lparr>fail_fast := f\<rparr>) st = should_skip_pdf pdf s st"
    by (simp add: should_skip_pdf_def)
  have pl: "page_loop w (s\<lparr>fail_fast := f\<rparr>) doc pdf acc = page_loop w s doc pdf acc" for doc acc
    by (simp add: page_loop_def page_body_fail_fast pages_to_process_def)
  show ?thesis
    unfolding convert_pdf_def sk pl ..
qed


lemma new_results_append: "results b = results b0 @ rs \<Longrightarrow> new_results b0 b = rs"
  by (simp add: new_results_def)

lemma batch_loop_stops:
  assumes "fail_fast s" and "batch_loop w s pdfs (b0, st) = (b, st')"
  shows "\<exists>rs. results b = results b0 @ rs
           \<and> map pdf_path rs = take (length rs) pdfs
           \<and> (\<forall>r\<in>set (butlast rs). status r \<noteq> Failed)
           \<and> (length rs < length pdfs \<longrightarrow> rs \<noteq> [] \<and> status (last rs) = Failed)
           \<and> b = fst (batch_loop w (s\<lparr>fail_fast := False\<rparr>) (take (length rs) pdfs) (b0, st))
           \<and> st' = (if rs \<noteq> [] \<and> status (last rs) = Failed
                    then emit Log_fail_fast
                           (snd (batch_loop w (s\<lparr>fail_fast := False\<rparr>)
                                   (take (length rs) pdfs) (b0, st)))
                    else snd (batch_loop w (s\<lparr>fail_fast := False\<rparr>)
                                (take (length rs) pdfs) (b0, st)))"
  using assms(2)
proof (induction pdfs arbitrary: b0 st)
  case Nil
  then have "results b = results b0 @ []
           \<and> map pdf_path [] = take (length ([] :: conversion_result list)) ([] :: path list)
           \<and> (\<forall>r\<in>set (butlast ([] :: conversion_result list)). status r \<noteq> Failed)
           \<and> (length ([] :: conversion_result list) < length ([] :: path list) \<longrightarrow>
                 ([] :: conversion_result list) \<noteq> [] \<and> status (last []) = Failed)
           \<and> b = fst (batch_loop w (s\<lparr>fail_fast := False\<rparr>)
                        (take (length ([] :: conversion_result list)) []) (b0, st))
           \<and> st' = (if ([] :: conversion_result list) \<noteq> [] \<and> status (last []) = Failed
                    then emit Log_fail_fast
                           (snd (batch_loop w (s\<lparr>fail_fast := False\<rparr>)
                                   (take (length ([] :: conversion_result list)) []) (b0, st)))
                    else snd (batch_loop w (s\<lparr>fail_fast := False\<rparr>)
                                (take (length ([] :: conversion_result list)) []) (b0, st)))"
    by simp
  then show ?case by (rule exI)
next
  case (Cons p ps)
  let ?s' = "s\<lparr>fail_fast := False\<rparr>"
  obtain r st1 where cv: "convert_pdf w p s st = (r, st1)"
    by (cases "convert_pdf w p s st")
  have cv': "convert_pdf w p ?s' st = (r, st1)"
    using cv by (simp add: convert_pdf_fail_fast)
  have pr: "pdf_path r = p" by (rule convert_pdf_pdf_path [OF cv])
  have one: "batch_loop w ?s' (p # qs) (b0, st) = batch_loop w ?s' qs (add b0 r, st1)" for qs
    using cv' by simp
  show ?case
  proof (cases "status r = Failed")
    case True
    with Cons.prems cv assms(1) have res: "b = add b0 r" "st' = emit Log_fail_fast st1"
      by simp_all
    have "results b = results b0 @ [r]
           \<and> map pdf_path [r] = take (length [r]) (p # ps)
           \<and> (\<forall>x\<in>set (butlast [r]). status x \<noteq> Failed)
           \<and> (length [r] < length (p # ps) \<longrightarrow> [r] \<noteq> [] \<and> status (last [r]) = Failed)
           \<and> b = fst (batch_loop w ?s' (take (length [r]) (p # ps)) (b0, st))
           \<and> st' = (if [r] \<noteq> [] \<and> status (last [r]) = Failed
                    then emit Log_fail_fast
                           (snd (batch_loop w ?s' (take (length [r]) (p # ps)) (b0, st)))
                    else snd (batch_loop w ?s' (take (length [r]) (p # ps)) (b0, st)))"
      using True res pr cv' by (simp add: results_add)
    then show ?thesis by (rule exI)
  next
    case False
    with Cons.prems cv have rest: "batch_loop w s ps (add b0 r, st1) = (b, st')"
      by simp
    from Cons.IH [OF rest] obtain rs where
      rs: "results b = results (add b0 r) @ rs"
        "map pdf_path rs = take (length rs) ps"
        "\<forall>x\<in>set (butlast rs). status x \<noteq> Failed"
        "length rs < length ps \<longrightarrow> rs \<noteq> [] \<and> status (last rs) = Failed"
        "b = fst (batch_loop w ?s' (take (length rs) ps) (add b0 r, st1))"
        "st' = (if rs \<noteq> [] \<and> status (last rs) = Failed
                then emit Log_fail_fast (snd (batch_loop w ?s' (take (length rs) ps) (add b0 r, st1)))
                else snd (batch_loop w ?s' (take (length rs) ps) (add b0 r, st1)))"
      by blast
    have tk: "take (length (r # rs)) (p # ps) = p # take (length rs) ps" by simp
    have lst: "(r # rs \<noteq> [] \<and> status (last (r # rs)) = Failed)
                 = (rs \<noteq> [] \<and> status (last rs) = Failed)"
      using False by (cases rs) simp_all
    have c1: "results b = results b0 @ (r # rs)"
      using rs(1) by (simp add: results_add)
    have c2: "map pdf_path (r # rs) = take (length (r # rs)) (p # ps)"
      using rs(2) pr by simp
    have c3: "\<forall>x\<in>set (butlast (r # rs)). status x \<noteq> Failed"
      using rs(3) False by (cases rs) simp_all
    have c4: "length (r # rs) < length (p # ps) \<longrightarrow> r # rs \<noteq> [] \<and> status (last (r # rs)) = Failed"
      using rs(4) lst by simp
    have c5: "b = fst (batch_loop w ?s' (take (length (r # rs)) (p # ps)) (b0, st))"
      using rs(5) by (simp only: tk one)
    have c6: "st' = (if r # rs \<noteq> [] \<and> status (last (r # rs)) = Failed
                    then emit Log_fail_fast
                           (snd (batch_loop w ?s' (take (length (r # rs)) (p # ps)) (b0, st)))
                    else snd (batch_loop w ?s' (take (length (r # rs)) (p # ps)) (b0, st)))"
      using rs(6) by (simp only: tk one lst)
    from c1 c2 c3 c4 c5 c6 show ?thesis by blast
  qed
qed


text \<open>
  Claim C4. With fail-fast enabled the batch loop processes the documents in order and
  appends one result for each to the results it started with. No result before the last
  one is failed, and documents are left out only if the last result is failed: the loop
  stops right after the first failed document and for no other status. The outcome is
  that of processing exactly the documents up to that point, so a document after the
  failed one is never processed.
\<close>

theorem fail_fast_spec:
  assumes "fail_fast s" and "batch_loop w s pdfs (b0, st) = (b, st')"
  shows "results b = results b0 @ new_results b0 b
       \<and> map pdf_path (new_results b0 b) = take (length (new_results b0 b)) pdfs
       \<and> (\<forall>r\<in>set (butlast (new_results b0 b)). status r \<noteq> Failed)
       \<and> (length (new_results b0 b) < length pdfs \<longrightarrow>
            new_results b0 b \<noteq> [] \<and> status (last (new_results b0 b)) = Failed)
       \<and> b = fst (batch_loop w (s\<lparr>fail_fast := False\<rparr>)
                    (take (length (new_results b0 b)) pdfs) (b0, st))
       \<and> st' = (if new_results b0 b \<noteq> [] \<and> status (last (new_results b0 b)) = Failed
                then emit Log_fail_fast
                       (snd (batch_loop w (s\<lparr>fail_fast := False\<rparr>)
                               (take (length (new_results b0 b)) pdfs) (b0, st)))
                else snd (batch_loop w (s\<lparr>fail_fast := False\<rparr>)
                            (take (length (new_results b0 b)) pdfs) (b0, st)))"
proof -
  from batch_loop_stops [OF assms] obtain rs where
    rs: "results b = results b0 @ rs"
    and rest: "map pdf_path rs = take (length rs) pdfs
           \<and> (\<forall>r\<in>set (butlast rs). status r \<noteq> Failed)
           \<and> (length rs < length pdfs \<longrightarrow> rs \<noteq> [] \<and> status (last rs) = Failed)
           \<and> b = fst (batch_loop w (s\<lparr>fail_fast := False\<rparr>) (take (length rs) pdfs) (b0, st))
           \<and> st' = (if rs \<noteq> [] \<and> status (last rs) = Failed
                    then emit Log_fail_fast
                           (snd (batch_loop w (s\<lparr>fail_fast := False\<rparr>)
                                   (take (length rs) pdfs) (b0, st)))
                    else snd (batch_loop w (s\<lparr>fail_fast := False\<rparr>)
                                (take (length rs) pdfs) (b0, st)))"
    by blast
  have nr: "new_results b0 b = rs" by (rule new_results_append [OF rs])
  from rs rest show ?thesis unfolding nr by (intro conjI) blast+
qed

lemma convert_batch_loop:
  assumes "stat_error w (input_folder s) = None" "exists st (input_folder s)"
    "mkdir_error w (output_folder s) = None"
    "sorted_paths (glob_pdf w (input_folder s)) = pdfs" "pdfs \<noteq> []"
  shows "convert_batch w s st
           = Inr (batch_loop w s pdfs
                    (new_batch,
                     emit (Log_found (length pdfs))
                       (emit (Call_mkdir (output_folder s))
                          (st\<lparr>files := files st \<union> set (ancestors (output_folder s))\<rparr>))))"
  using assms by (simp add: convert_batch_def path_exists_def mkdir_def Let_def)

text \<open>
  The documents \<^verbatim>\<open>a.pdf\<close>, \<^verbatim>\<open>b.pdf\<close>, \<^verbatim>\<open>c.pdf\<close>, of which the second cannot be opened: the
  batch has the two results of \<^verbatim>\<open>a.pdf\<close> and \<^verbatim>\<open>b.pdf\<close>, and nothing is opened after
  \<^verbatim>\<open>b.pdf\<close>.
\<close>

theorem fail_fast_spec_witness:
  "fail_fast fail_fast_settings
   \<and> sorted_paths (glob_pdf abc_world (input_folder fail_fast_settings))
       = [input_pdf ''a.pdf'', input_pdf ''b.pdf'', input_pdf ''c.pdf'']
   \<and> (case convert_batch abc_world fail_fast_settings input_sys of
         Inl e \<Rightarrow> False
       | Inr (b, st') \<Rightarrow>
           map pdf_path (results b) = [input_pdf ''a.pdf'', input_pdf ''b.pdf'']
           \<and> map status (results b) = [Success, Failed]
           \<and> Call_open (input_pdf ''c.pdf'') \<notin> set (trace st'))"
proof -
  let ?pdfs = "[input_pdf ''a.pdf'', input_pdf ''b.pdf'', input_pdf ''c.pdf'']"
  let ?st = "emit (Log_found (length ?pdfs))
               (emit (Call_mkdir (output_folder fail_fast_settings))
                  (input_sys\<lparr>files := files input_sys
                                 \<union> set (ancestors (output_folder fail_fast_settings))\<rparr>))"
  let ?run = "batch_loop abc_world fail_fast_settings ?pdfs (new_batch, ?st)"
  have ff: "fail_fast fail_fast_settings"
    by (simp add: fail_fast_settings_def)
  have ex: "exists input_sys (input_folder fail_fast_settings)"
    by (simp add: exists_def input_sys_def fail_fast_settings_def default_settings_def)
  have se: "stat_error abc_world (input_folder fail_fast_settings) = None"
    and me: "mkdir_error abc_world (output_folder fail_fast_settings) = None"
    by (simp_all add: abc_world_def sample_world_def)
  have gl: "sorted_paths (glob_pdf abc_world (input_folder fail_fast_settings)) = ?pdfs"
    by code_simp
  have cb: "convert_batch abc_world fail_fast_settings input_sys = Inr ?run"
    by (rule convert_batch_loop [OF se ex me gl]) simp
  define X where "X = ?run"
  have run: "?run = (fst X, snd X)" by (simp only: X_def prod.collapse)
  note spec = fail_fast_spec [OF ff run]
  have nr: "new_results new_batch (fst X) = results (fst X)"
    by (simp add: new_results_def new_batch_def)
  have st: "map status (results (fst X)) = [Success, Failed]"
    unfolding X_def by code_simp
  then have "length (map status (results (fst X))) = 2" by simp
  then have len: "length (results (fst X)) = 2" by simp
  from spec have "map pdf_path (results (fst X)) = take (length (results (fst X))) ?pdfs"
    unfolding nr by blast
  then have pp: "map pdf_path (results (fst X)) = [input_pdf ''a.pdf'', input_pdf ''b.pdf'']"
    by (simp add: len)
  have tr: "Call_open (input_pdf ''c.pdf'') \<notin> set (trace (snd X))"
    unfolding X_def by code_simp
  have "convert_batch abc_world fail_fast_settings input_sys = Inr (fst X, snd X)"
    using cb by (simp only: X_def prod.collapse)
  then have "(case convert_batch abc_world fail_fast_settings input_sys of
         Inl e \<Rightarrow> False
       | Inr (b, st') \<Rightarrow>
           map pdf_path (results b) = [input_pdf ''a.pdf'', input_pdf ''b.pdf'']
           \<and> map status (results b) = [Success, Failed]
           \<and> Call_open (input_pdf ''c.pdf'') \<notin> set (trace st'))"
    using pp st tr by (simp only: sum.case prod.case simp_thms)
  with ff gl show ?thesis by (intro conjI)
qed

end
